theory Spec2Isabelle
  imports Main "HOL-Library.Sublist"
begin

section \<open>Instances: version state of a host (pkg/instances/instances.go)\<close>

text \<open>
  A Go \<open>map[string]string\<close> is a partial function. Reading a key with the two-value form
  \<open>v, present := m[k]\<close> gives the zero value \<open>""\<close> and \<open>false\<close> when the key is
  missing (also on a nil map).
\<close>

definition lookup2 :: "(string \<rightharpoonup> string) \<Rightarrow> string \<Rightarrow> string \<times> bool" where
  "lookup2 m k = (case m k of None \<Rightarrow> ('''', False) | Some v \<Rightarrow> (v, True))"

text \<open>
  The part of \<open>core.Node\<close> that the code reads: its annotations, its labels and the
  names of the volumes in \<open>Status.VolumesAttached\<close>.
\<close>

record core_Node =
  Annotations :: "string \<rightharpoonup> string"
  Labels :: "string \<rightharpoonup> string"
  VolumesAttached :: "string list"

text \<open>\<open>InstanceInfo\<close>; the pointer \<open>Node\<close> is \<open>None\<close> when nil.\<close>

record InstanceInfo =
  Address :: string
  Username :: string
  NewHostname :: string
  Node :: "core_Node option"

text \<open>
  \<open>metadata.VersionAnnotation\<close> (the annotation key) and \<open>version.Get()\<close> (the version of
  the running controller) are declared outside the files at hand; both are parameters.
\<close>

definition UpToDate :: "string \<Rightarrow> string \<Rightarrow> InstanceInfo \<Rightarrow> bool" where
  "UpToDate VersionAnnotation version_Get i =
     (case Node i of
        None \<Rightarrow> False
      | Some n \<Rightarrow>
          (let (versionAnnotation, present) = lookup2 (Annotations n) VersionAnnotation
           in present \<and> versionAnnotation = version_Get))"

definition UpgradeRequired :: "string \<Rightarrow> string \<Rightarrow> InstanceInfo \<Rightarrow> bool" where
  "UpgradeRequired VersionAnnotation version_Get i =
     (if UpToDate VersionAnnotation version_Get i then False
      else case Node i of
        None \<Rightarrow> False
      | Some n \<Rightarrow>
          (let (_, present) = lookup2 (Annotations n) VersionAnnotation
           in if \<not> present then False else True))"

text \<open>The version annotation is present on the instance's node (false without a node).\<close>

definition annotationPresent :: "string \<Rightarrow> InstanceInfo \<Rightarrow> bool" where
  "annotationPresent VersionAnnotation i =
     (case Node i of None \<Rightarrow> False | Some n \<Rightarrow> Annotations n VersionAnnotation \<noteq> None)"

text \<open>Sample records used to exercise the statements below.\<close>

definition node_with :: "(string \<rightharpoonup> string) \<Rightarrow> core_Node" where
  "node_with anns = \<lparr>Annotations = anns, Labels = Map.empty, VolumesAttached = []\<rparr>"

definition inst :: "core_Node option \<Rightarrow> InstanceInfo" where
  "inst n = \<lparr>Address = ''10.0.0.7'', Username = ''Administrator'', NewHostname = '''', Node = n\<rparr>"

section \<open>Annotation patches (package annotations)\<close>

text \<open>
  \<open>strings.Replace(s, old, new, -1)\<close> of the Go library: every non-overlapping
  occurrence of \<open>old\<close>, found from the left, is replaced by \<open>new\<close>. The code
  calls it with the one-byte \<open>old = "/"\<close>; an empty \<open>old\<close> is not covered here.
\<close>

function strings_Replace :: "string \<Rightarrow> string \<Rightarrow> string \<Rightarrow> string" where
  "strings_Replace [] old new = []"
| "strings_Replace (c # cs) old new =
     (if old \<noteq> [] \<and> prefix old (c # cs)
      then new @ strings_Replace (drop (length old) (c # cs)) old new
      else c # strings_Replace cs old new)"
  by pat_completeness auto
termination
  by (relation "measure (\<lambda>(s, old, new). length s)") auto

definition formatPathValue :: "string \<Rightarrow> string" where
  "formatPathValue key =
     (let escapedKey = strings_Replace key ''/'' ''~1''
      in ''/metadata/annotations/'' @ escapedKey)"

text \<open>
  The segment of a patch path that stands for the key: what follows the fixed prefix
  \<open>/metadata/annotations/\<close> (22 bytes).
\<close>

definition keySegment :: "string \<Rightarrow> string" where
  "keySegment path = drop (length ''/metadata/annotations/'') path"

text \<open>
  Modelled from the spec: the type \<open>patch.JSONPatch\<close> and its constructor
  \<open>patch.NewJSONPatch\<close> (package pkg/patch) are missing; the spec gives a patch
  operation as a triple of operation, path and value.
\<close>

record JSONPatch =
  Op :: string
  Path :: string
  Value :: string

definition NewJSONPatch :: "string \<Rightarrow> string \<Rightarrow> string \<Rightarrow> JSONPatch" where
  "NewJSONPatch op path v = \<lparr>Op = op, Path = path, Value = v\<rparr>"

text \<open>
  \<open>json.Marshal\<close> on a slice of such structs (package encoding/json, Go 1.22 and
  later): a JSON array of objects, the fields in declaration order. On strings it cannot
  fail. A string literal is written byte by byte. An ASCII byte of \<open>htmlSafeSet\<close> is
  copied; the quote and the backslash get a backslash in front; backspace, form feed,
  newline, carriage return and tab are written as a backslash and the letter b, f, n, r
  or t; every other ASCII byte (the other control bytes, \<open><\<close>, \<open>>\<close>, \<open>&\<close>) is written
  as a backslash, \<open>u00\<close> and two hex digits. From 0x80 on the bytes are decoded as
  UTF-8 the way \<open>utf8.DecodeRuneInString\<close> does: a byte that starts no valid sequence
  is written as the escape of U+FFFD, the code points U+2028 and U+2029 are written as
  their escapes, every other valid sequence is copied.
\<close>

definition htmlSafe :: "char \<Rightarrow> bool" where
  "htmlSafe b =
     (32 \<le> (of_char b :: nat) \<and> (of_char b :: nat) < 128 \<and>
      b \<noteq> CHR 0x22 \<and> b \<noteq> CHR ''&'' \<and> b \<noteq> CHR ''<'' \<and> b \<noteq> CHR ''>'' \<and> b \<noteq> CHR 0x5C)"

definition hexDigit :: "nat \<Rightarrow> char" where
  "hexDigit n = ''0123456789abcdef'' ! (n mod 16)"

definition escapeByte :: "char \<Rightarrow> string" where
  "escapeByte b =
     (if b = CHR 0x5C \<or> b = CHR 0x22 then [CHR 0x5C, b]
      else if b = CHR 0x08 then [CHR 0x5C, CHR ''b'']
      else if b = CHR 0x0C then [CHR 0x5C, CHR ''f'']
      else if b = CHR 0x0A then [CHR 0x5C, CHR ''n'']
      else if b = CHR 0x0D then [CHR 0x5C, CHR ''r'']
      else if b = CHR 0x09 then [CHR 0x5C, CHR ''t'']
      else [CHR 0x5C, CHR ''u'', CHR ''0'', CHR ''0'',
            hexDigit ((of_char b :: nat) div 16), hexDigit (of_char b)])"

definition inRange :: "nat \<Rightarrow> nat \<Rightarrow> char \<Rightarrow> bool" where
  "inRange lo hi b = (lo \<le> (of_char b :: nat) \<and> (of_char b :: nat) \<le> hi)"

text \<open>
  The size of the valid UTF-8 sequence of two to four bytes at the head of \<open>s\<close>, and 0
  when the first byte starts none (where the decoder gives \<open>RuneError\<close> with size 1).
  The second byte is held to the narrower range that the first byte asks for.
\<close>

definition runeSize :: "string \<Rightarrow> nat" where
  "runeSize s =
     (case s of
        [] \<Rightarrow> 0
      | b0 # r \<Rightarrow>
         (let n0 = (of_char b0 :: nat);
              lo = (if n0 = 0xE0 then 0xA0 else if n0 = 0xF0 then 0x90 else 0x80);
              hi = (if n0 = 0xED then 0x9F else if n0 = 0xF4 then 0x8F else 0xBF)
          in if 0xC2 \<le> n0 \<and> n0 \<le> 0xDF then
               (case r of
                  b1 # _ \<Rightarrow> if inRange lo hi b1 then 2 else 0
                | _ \<Rightarrow> 0)
             else if 0xE0 \<le> n0 \<and> n0 \<le> 0xEF then
               (case r of
                  b1 # b2 # _ \<Rightarrow>
                    if inRange lo hi b1 \<and> inRange 0x80 0xBF b2 then 3 else 0
                | _ \<Rightarrow> 0)
             else if 0xF0 \<le> n0 \<and> n0 \<le> 0xF4 then
               (case r of
                  b1 # b2 # b3 # _ \<Rightarrow>
                    if inRange lo hi b1 \<and> inRange 0x80 0xBF b2 \<and> inRange 0x80 0xBF b3
                    then 4 else 0
                | _ \<Rightarrow> 0)
             else 0))"

function json_bytes :: "string \<Rightarrow> string" where
  "json_bytes [] = []"
| "json_bytes (b # bs) =
     (if (of_char b :: nat) < 128 then
        (if htmlSafe b then [b] else escapeByte b) @ json_bytes bs
      else if runeSize (b # bs) = 0 then
        [CHR 0x5C, CHR ''u'', CHR ''f'', CHR ''f'', CHR ''f'', CHR ''d''] @ json_bytes bs
      else if take 3 (b # bs) = [CHR 0xE2, CHR 0x80, CHR 0xA8] then
        [CHR 0x5C, CHR ''u'', CHR ''2'', CHR ''0'', CHR ''2'', CHR ''8'']
          @ json_bytes (drop 3 (b # bs))
      else if take 3 (b # bs) = [CHR 0xE2, CHR 0x80, CHR 0xA9] then
        [CHR 0x5C, CHR ''u'', CHR ''2'', CHR ''0'', CHR ''2'', CHR ''9'']
          @ json_bytes (drop 3 (b # bs))
      else take (runeSize (b # bs)) (b # bs) @ json_bytes (drop (runeSize (b # bs)) (b # bs)))"
  by pat_completeness auto
termination
  by (relation "measure length") auto

definition quoted :: "string \<Rightarrow> string" where
  "quoted s = [CHR 0x22] @ s @ [CHR 0x22]"

definition json_string :: "string \<Rightarrow> string" where
  "json_string s = quoted (json_bytes s)"

definition json_object :: "JSONPatch \<Rightarrow> string" where
  "json_object p =
     ''{'' @ quoted ''op'' @ '':'' @ json_string (Op p) @ '','' @
     quoted ''path'' @ '':'' @ json_string (Path p) @ '','' @
     quoted ''value'' @ '':'' @ json_string (Value p) @ ''}''"

fun json_elems :: "JSONPatch list \<Rightarrow> string" where
  "json_elems [] = []"
| "json_elems [p] = json_object p"
| "json_elems (p # ps) = json_object p @ '','' @ json_elems ps"

datatype patch_error = InputError string

definition json_Marshal :: "JSONPatch list \<Rightarrow> patch_error + string" where
  "json_Marshal patches = Inr (''['' @ json_elems patches @ '']'')"

text \<open>
  A Go map that a function receives is kept as the list of its entries in the order in
  which the \<open>range\<close> of this call visits them; Go picks that order anew for every loop,
  and the list stands for any of them. The keys of a map are distinct, so \<open>len\<close> is the
  length of the list.
\<close>

fun appendPatches :: "string \<Rightarrow> (string \<times> string) list \<Rightarrow> JSONPatch list \<Rightarrow> JSONPatch list" where
  "appendPatches op [] patches = patches"
| "appendPatches op ((key, v) # rest) patches =
     appendPatches op rest (patches @ [NewJSONPatch op (formatPathValue key) v])"

definition generateAnnotationPatch :: "string \<Rightarrow> (string \<times> string) list \<Rightarrow> patch_error + string" where
  "generateAnnotationPatch op annotations =
     (if length annotations = 0
      then Inl (InputError ''annotations to format cannot be empty or nil'')
      else json_Marshal (appendPatches op annotations []))"

definition GenerateAddPatch :: "(string \<times> string) list \<Rightarrow> patch_error + string" where
  "GenerateAddPatch annotations = generateAnnotationPatch ''add'' annotations"

text \<open>
  The map that \<open>GenerateRemovePatch\<close> makes: \<open>annotationMap[annotation] = ""\<close> for every
  element of the slice, a key seen again storing the same entry once more.
\<close>

fun makeAnnotationMap :: "string list \<Rightarrow> (string \<rightharpoonup> string) \<Rightarrow> (string \<rightharpoonup> string)" where
  "makeAnnotationMap [] annotationMap = annotationMap"
| "makeAnnotationMap (annotation # rest) annotationMap =
     makeAnnotationMap rest (annotationMap(annotation \<mapsto> ''''))"

text \<open>
  The entries of a map as a \<open>range\<close> yields them when it visits the keys in the order
  \<open>visit\<close>. For a run of the code \<open>visit\<close> holds every key of the map once; which of
  these orders it is changes from loop to loop.
\<close>

fun rangeEntries :: "(string \<rightharpoonup> string) \<Rightarrow> string list \<Rightarrow> (string \<times> string) list" where
  "rangeEntries m [] = []"
| "rangeEntries m (key # rest) =
     (case m key of
        Some v \<Rightarrow> (key, v) # rangeEntries m rest
      | None \<Rightarrow> rangeEntries m rest)"

definition rangeOrder :: "(string \<rightharpoonup> string) \<Rightarrow> string list \<Rightarrow> bool" where
  "rangeOrder m visit = (distinct visit \<and> set visit = dom m)"

text \<open>
  \<open>GenerateRemovePatch\<close>; \<open>visit\<close> is the order in which the loop of
  \<open>generateAnnotationPatch\<close> visits the keys of \<open>annotationMap\<close> in this call.
\<close>

definition GenerateRemovePatch :: "string list \<Rightarrow> string list \<Rightarrow> patch_error + string" where
  "GenerateRemovePatch visit annotations =
     (let annotationMap = makeAnnotationMap annotations Map.empty
      in generateAnnotationPatch ''remove'' (rangeEntries annotationMap visit))"

text \<open>
  The JSON text of one patch operation whose operation, key and value hold only bytes of
  \<open>htmlSafeSet\<close>, so that no byte needs an escape other than the \<open>/\<close> of the key in the
  path.
\<close>

abbreviation patchText :: "string \<Rightarrow> string \<Rightarrow> string \<Rightarrow> string" where
  "patchText op key v \<equiv>
     ''{'' @ quoted ''op'' @ '':'' @ quoted op @ '','' @
     quoted ''path'' @ '':'' @
       quoted (''/metadata/annotations/'' @
               concat (map (\<lambda>c. if c = CHR ''/'' then ''~1'' else [c]) key)) @ '','' @
     quoted ''value'' @ '':'' @ quoted v @ ''}''"

section \<open>Remote connectivity over SSH (package windows)\<close>

text \<open>\<open>strings.Contains(s, substr)\<close>: \<open>substr\<close> occurs in \<open>s\<close> at some position.\<close>

fun strings_Contains :: "string \<Rightarrow> string \<Rightarrow> bool" where
  "strings_Contains [] substr = (substr = [])"
| "strings_Contains (c # cs) substr = (prefix substr (c # cs) \<or> strings_Contains cs substr)"

text \<open>
  Go errors as values. \<open>AuthErr\<close> is the struct of the source; \<open>ErrWaitTimeout\<close> is the
  error with which the poll of the wait library gives up; \<open>ErrorString\<close> is an error made
  by \<open>errors.New\<close>, by \<open>fmt.Errorf\<close> without \<open>%w\<close>, or by a library; \<open>Wrapped msg e\<close> is
  \<open>fmt.Errorf(msg + ": %w", e)\<close>.
\<close>

datatype conn_error =
    AuthErr string
  | ErrWaitTimeout
  | ErrorString string
  | Wrapped string conn_error

fun Error :: "conn_error \<Rightarrow> string" where
  "Error (AuthErr err) = ''SSH authentication failed: '' @ err"
| "Error ErrWaitTimeout = ''timed out waiting for the condition''"
| "Error (ErrorString s) = s"
| "Error (Wrapped msg e) = msg @ '': '' @ Error e"

definition newAuthErr :: "string \<Rightarrow> conn_error" where
  "newAuthErr err = AuthErr err"

text \<open>What \<open>errors.As(err, &authErr)\<close> finds: an \<open>AuthErr\<close> in the chain of wrapped errors.\<close>

fun isAuthErr :: "conn_error \<Rightarrow> bool" where
  "isAuthErr (AuthErr err) = True"
| "isAuthErr (Wrapped msg e) = isAuthErr e"
| "isAuthErr e = False"

text \<open>An established client, with the address it was dialled at.\<close>

datatype ssh_Client = SshClient string

text \<open>
  \<open>sshConnectivity\<close>: a nil \<open>signer\<close> or \<open>sshClient\<close> is \<open>None\<close>; \<open>log\<close> holds the
  messages written to the logger so far.
\<close>

record sshConnectivity =
  username :: string
  ipAddress :: string
  signer :: "string option"
  sshClient :: "ssh_Client option"
  log :: "string list"

text \<open>
  The network decides what each call of \<open>ssh.Dial\<close> returns: \<open>net k\<close> is the result of
  the call number \<open>k\<close> (from 0), an error text or a client.
\<close>

type_synonym network = "nat \<Rightarrow> string + ssh_Client"

text \<open>
  The variables that the closure handed to the poll reads and writes: the captured
  \<open>sshClient\<close>, the logger, and how many times \<open>ssh.Dial\<close> was called.
\<close>

record dial_state =
  client :: "ssh_Client option"
  logged :: "string list"
  dials :: nat

text \<open>The condition function of \<open>init\<close>: one call of \<open>ssh.Dial\<close>.\<close>

definition dialCondition :: "network \<Rightarrow> dial_state \<Rightarrow> (bool \<times> conn_error option) \<times> dial_state" where
  "dialCondition net s =
     (case net (dials s) of
        Inr cl \<Rightarrow> ((True, None), s\<lparr>client := Some cl, dials := Suc (dials s)\<rparr>)
      | Inl err \<Rightarrow>
          (let s' = s\<lparr>client := None, logged := logged s @ [''SSH dial: '' @ err],
                      dials := Suc (dials s)\<rparr>
           in if strings_Contains err ''unable to authenticate''
              then ((False, Some (newAuthErr err)), s')
              else ((False, None), s')))"

text \<open>
  \<open>wait.PollImmediate(interval, timeout, condition)\<close> of the Kubernetes wait library:
  the condition runs at once and then at every interval; an error of the condition ends
  the poll with that error, \<open>true\<close> ends it without error, and when the timeout is over
  the poll ends with \<open>ErrWaitTimeout\<close>. Time is not modelled: the first argument is the
  number of runs of the condition that fit before the timeout.
\<close>

fun PollImmediate :: "nat \<Rightarrow> ('s \<Rightarrow> (bool \<times> conn_error option) \<times> 's) \<Rightarrow> 's \<Rightarrow> conn_error option \<times> 's" where
  "PollImmediate 0 condition s = (Some ErrWaitTimeout, s)"
| "PollImmediate (Suc n) condition s =
     (case condition s of
        ((done, Some err), s') \<Rightarrow> (Some err, s')
      | ((True, None), s') \<Rightarrow> (None, s')
      | ((False, None), s') \<Rightarrow> PollImmediate n condition s')"

text \<open>
  \<open>init\<close>. The constant \<open>retry.Timeout\<close> (package pkg/retry) is missing: \<open>ticks\<close> is the
  number of one-minute intervals that pass before it is over, so the condition runs at
  most \<open>Suc ticks\<close> times. The result is the returned error (\<open>None\<close> for nil), the
  connectivity afterwards and the number of calls of \<open>ssh.Dial\<close> made.
\<close>

definition init :: "network \<Rightarrow> nat \<Rightarrow> sshConnectivity \<Rightarrow> conn_error option \<times> sshConnectivity \<times> nat" where
  "init net ticks c =
     (if username c = '''' \<or> ipAddress c = '''' \<or> signer c = None
      then (Some (ErrorString ''incomplete sshConnectivity information''), c, 0)
      else
        (case PollImmediate (Suc ticks) (dialCondition net)
                \<lparr>client = None, logged = [], dials = 0\<rparr> of
           (Some err, s) \<Rightarrow>
             (Some (Wrapped (''unable to connect to Windows VM '' @ ipAddress c) err),
              c\<lparr>log := log c @ logged s\<rparr>, dials s)
         | (None, s) \<Rightarrow>
             (None, c\<lparr>sshClient := client s, log := log c @ logged s\<rparr>, dials s)))"

text \<open>A dial result that \<open>init\<close> retries: an error that is not a rejected credential.\<close>

definition transient :: "string + ssh_Client \<Rightarrow> bool" where
  "transient r = (case r of Inl err \<Rightarrow> \<not> strings_Contains err ''unable to authenticate'' | Inr cl \<Rightarrow> False)"

text \<open>
  The remote file system as SFTP shows it: the directories that exist, and for each path
  the bytes of the file and whether its handle has been closed.
\<close>

record remote_file =
  content :: string
  closed :: bool

record remote_fs =
  dirs :: "string set"
  files :: "string \<rightharpoonup> remote_file"

text \<open>
  What the remote side answers to each SFTP call of one \<open>transfer\<close>: \<open>None\<close> for
  success, an error text otherwise; a failed copy also tells how many bytes had been
  written.
\<close>

record sftp_faults =
  newClientErr :: "string option"
  mkdirAllErr :: "string option"
  createErr :: "string option"
  copyErr :: "(nat \<times> string) option"
  fileCloseErr :: "string option"
  ftpCloseErr :: "string option"

text \<open>The deferred \<open>ftp.Close()\<close>: a failure is logged, the result stays.\<close>

definition deferFtpClose ::
  "sftp_faults \<Rightarrow> conn_error option \<times> sshConnectivity \<times> remote_fs \<Rightarrow>
   conn_error option \<times> sshConnectivity \<times> remote_fs" where
  "deferFtpClose flt r =
     (case r of (err, c, fs) \<Rightarrow>
        (case ftpCloseErr flt of
           None \<Rightarrow> (err, c, fs)
         | Some e \<Rightarrow> (err, c\<lparr>log := log c @ [''error closing FTP connection: '' @ e]\<rparr>, fs)))"

text \<open>
  \<open>transfer\<close>: \<open>reader\<close> is the byte sequence that the reader yields. The result is the
  returned error (\<open>None\<close> for nil), the connectivity (its log) and the remote file
  system afterwards.
\<close>

definition transfer ::
  "sftp_faults \<Rightarrow> sshConnectivity \<Rightarrow> string \<Rightarrow> string \<Rightarrow> string \<Rightarrow> remote_fs \<Rightarrow>
   conn_error option \<times> sshConnectivity \<times> remote_fs" where
  "transfer flt c reader filename remoteDir fs =
     (if sshClient c = None
      then (Some (ErrorString ''transfer cannot be called with nil SSH client''), c, fs)
      else case newClientErr flt of
        Some e \<Rightarrow> (Some (ErrorString e), c, fs)
      | None \<Rightarrow> deferFtpClose flt
         (case mkdirAllErr flt of
            Some e \<Rightarrow>
              (Some (Wrapped (''error creating remote directory '' @ remoteDir) (ErrorString e)), c, fs)
          | None \<Rightarrow>
             (let fs1 = fs\<lparr>dirs := insert remoteDir (dirs fs)\<rparr>;
                  remoteFile = remoteDir @ [CHR 0x5C] @ filename
              in case createErr flt of
                Some e \<Rightarrow>
                  (Some (Wrapped (''error initializing '' @ remoteFile @ '' file on Windows VM'')
                           (ErrorString e)), c, fs1)
              | None \<Rightarrow>
                 (let fs2 = fs1\<lparr>files := (files fs1)(remoteFile \<mapsto> \<lparr>content = [], closed = False\<rparr>)\<rparr>
                  in case copyErr flt of
                    Some (n, e) \<Rightarrow>
                      (Some (Wrapped (''error copying '' @ filename @ '' to the Windows VM'')
                               (ErrorString e)),
                       c,
                       fs2\<lparr>files := (files fs2)(remoteFile \<mapsto>
                                       \<lparr>content = take n reader, closed = False\<rparr>)\<rparr>)
                  | None \<Rightarrow>
                     (let fs3 = fs2\<lparr>files := (files fs2)(remoteFile \<mapsto>
                                                \<lparr>content = reader, closed = False\<rparr>)\<rparr>
                      in case fileCloseErr flt of
                        Some e \<Rightarrow>
                          (None,
                           c\<lparr>log := log c @ [''error closing remote file '' @ remoteFile @ '': '' @ e]\<rparr>,
                           fs3)
                      | None \<Rightarrow>
                          (None, c,
                           fs3\<lparr>files := (files fs3)(remoteFile \<mapsto>
                                           \<lparr>content = reader, closed = True\<rparr>)\<rparr>))))))"

text \<open>Sample values used to exercise the statements below.\<close>

definition conn0 :: sshConnectivity where
  "conn0 = \<lparr>username = ''Administrator'', ipAddress = ''10.0.0.7'', signer = Some ''key'',
            sshClient = None, log = []\<rparr>"

definition conn1 :: sshConnectivity where
  "conn1 = conn0\<lparr>sshClient := Some (SshClient ''10.0.0.7:22'')\<rparr>"

definition emptyFs :: remote_fs where
  "emptyFs = \<lparr>dirs = {}, files = Map.empty\<rparr>"

definition noFaults :: sftp_faults where
  "noFaults = \<lparr>newClientErr = None, mkdirAllErr = None, createErr = None, copyErr = None,
               fileCloseErr = None, ftpCloseErr = None\<rparr>"

definition netRetry :: network where
  "netRetry k = (if k < 2 then Inl ''dial tcp 10.0.0.7:22: connect: connection refused''
                 else Inr (SshClient ''10.0.0.7:22''))"

definition netAuth :: network where
  "netAuth k = Inl ''ssh: handshake failed: ssh: unable to authenticate, attempted methods [none publickey], no supported methods remain''"

definition netDown :: network where
  "netDown k = Inl ''dial tcp 10.0.0.7:22: i/o timeout''"

definition k8sDir :: string where
  "k8sDir = ''C:'' @ [CHR 0x5C] @ ''k''"

definition closeFails :: sftp_faults where
  "closeFails = noFaults\<lparr>fileCloseErr := Some ''connection lost''\<rparr>"

section \<open>Upgrade gate (package controllers)\<close>

text \<open>
  Modelled from the spec: the method \<open>instanceReconciler.upgradeBlocked\<close> of package
  controllers is missing; only its test \<open>TestUpgradeBlocked\<close> is at hand. The spec
  (section 4.4): if the node already carries the storage-driver-migrated marker, the
  upgrade is never blocked; otherwise it is blocked if and only if
  \<open>migratingToNewDriver\<close> is true and at least one volume currently attached to the
  node is referenced by an in-tree volume path in the live stats snapshot. The marker is
  the label \<open>metadata.CSIConfiguredLabel\<close>, a parameter here. An entry of the snapshot is
  a mounted volume with the path it references and the driver behind it.
\<close>

datatype driver = InTree | NewDriver

record volume_stat =
  volumePath :: string
  backing :: driver

definition inTreeReferenced :: "volume_stat list \<Rightarrow> string \<Rightarrow> bool" where
  "inTreeReferenced liveVolumeStats attached =
     list_ex (\<lambda>v. backing v = InTree \<and> volumePath v = attached) liveVolumeStats"

definition upgradeBlocked :: "string \<Rightarrow> core_Node \<Rightarrow> bool \<Rightarrow> volume_stat list \<Rightarrow> bool" where
  "upgradeBlocked CSIConfiguredLabel node migratingToNewDriver liveVolumeStats =
     (if Labels node CSIConfiguredLabel \<noteq> None then False
      else migratingToNewDriver \<and>
           list_ex (inTreeReferenced liveVolumeStats) (VolumesAttached node))"

text \<open>The node that \<open>TestUpgradeBlocked\<close> builds: no attached volumes, labels as given.\<close>

definition testNode :: "(string \<rightharpoonup> string) \<Rightarrow> core_Node" where
  "testNode labels = \<lparr>Annotations = Map.empty, Labels = labels, VolumesAttached = []\<rparr>"

section \<open>Certificate bundle convergence (package certificates and its controller)\<close>

text \<open>
  Modelled from the spec: the code that merges the trust bundle and installs it on the
  hosts is missing; only an end-to-end test that polls a node for the certificate is at
  hand. The spec (sections 3 and 4.5): a bundle is a set of PEM certificate blocks; on a
  rotation the engine computes the merged bundle, the union of the prior and the new
  blocks, never a destructive replace; for every managed host that is \<open>UpToDate\<close> it
  reads the host's bundle file, compares it with the expected merged content and, if it
  differs, installs the merged content with \<open>transfer\<close>. A bundle is kept as the list of
  its blocks; the comparison of the trimmed texts is the equality of the lists; whether
  the transfer works out is an input.
\<close>

type_synonym trust_bundle = "string list"

definition mergeBundles :: "trust_bundle \<Rightarrow> trust_bundle \<Rightarrow> trust_bundle" where
  "mergeBundles prior new = prior @ filter (\<lambda>b. b \<notin> set prior) (remdups new)"

record managed_host =
  hostUpToDate :: bool
  bundleFile :: trust_bundle

datatype pass_outcome = Skipped | AlreadyConverged | Installed | TransferFailed

definition convergeHost :: "bool \<Rightarrow> trust_bundle \<Rightarrow> managed_host \<Rightarrow> pass_outcome \<times> managed_host" where
  "convergeHost transferOk expected h =
     (if \<not> hostUpToDate h then (Skipped, h)
      else if bundleFile h = expected then (AlreadyConverged, h)
      else if transferOk then (Installed, h\<lparr>bundleFile := expected\<rparr>)
      else (TransferFailed, h))"

section \<open>Theorems: instances\<close>

text \<open>
  C1. \<open>UpToDate\<close> is false whenever the record's \<open>Node\<close> is nil; with a node it is true
  if and only if the version annotation is present on the node and its value equals the
  version of the running controller.
\<close>

theorem C1_UpToDate:
  "(Node i = None \<longrightarrow> \<not> UpToDate va ver i) \<and>
   (\<forall>n. Node i = Some n \<longrightarrow>
      UpToDate va ver i = (\<exists>v. Annotations n va = Some v \<and> v = ver))"
  by (auto simp: UpToDate_def lookup2_def split: option.splits)

theorem C1_UpToDate_witness:
  "\<not> UpToDate ''wmco/version'' ''9.0.0'' (inst None) \<and>
   UpToDate ''wmco/version'' ''9.0.0'' (inst (Some (node_with [''wmco/version'' \<mapsto> ''9.0.0'']))) \<and>
   \<not> UpToDate ''wmco/version'' ''9.0.0'' (inst (Some (node_with [''wmco/version'' \<mapsto> ''8.1.0''])))"
  using C1_UpToDate [of "inst None" "''wmco/version''" "''9.0.0''"]
    C1_UpToDate [of "inst (Some (node_with [''wmco/version'' \<mapsto> ''9.0.0'']))" "''wmco/version''" "''9.0.0''"]
    C1_UpToDate [of "inst (Some (node_with [''wmco/version'' \<mapsto> ''8.1.0'']))" "''wmco/version''" "''9.0.0''"]
  by (simp add: inst_def node_with_def)

text \<open>
  C2. \<open>UpgradeRequired\<close> is false when \<open>UpToDate\<close> is true, false when \<open>Node\<close> is nil,
  false when the version annotation is absent, and true in every remaining case: a node
  whose annotation is present with a value other than the running version.
\<close>

theorem C2_UpgradeRequired:
  "(UpToDate va ver i \<longrightarrow> \<not> UpgradeRequired va ver i) \<and>
   (Node i = None \<longrightarrow> \<not> UpgradeRequired va ver i) \<and>
   (\<forall>n. Node i = Some n \<and> Annotations n va = None \<longrightarrow> \<not> UpgradeRequired va ver i) \<and>
   (\<forall>n v. Node i = Some n \<and> Annotations n va = Some v \<and> v \<noteq> ver \<longrightarrow> UpgradeRequired va ver i) \<and>
   (\<not> UpToDate va ver i \<and> Node i \<noteq> None \<and> annotationPresent va i \<longrightarrow> UpgradeRequired va ver i)"
  by (auto simp: UpgradeRequired_def UpToDate_def annotationPresent_def lookup2_def
           split: option.splits)

theorem C2_UpgradeRequired_witness:
  "\<not> UpgradeRequired ''wmco/version'' ''9.0.0'' (inst (Some (node_with [''wmco/version'' \<mapsto> ''9.0.0'']))) \<and>
   \<not> UpgradeRequired ''wmco/version'' ''9.0.0'' (inst None) \<and>
   \<not> UpgradeRequired ''wmco/version'' ''9.0.0'' (inst (Some (node_with Map.empty))) \<and>
   UpgradeRequired ''wmco/version'' ''9.0.0'' (inst (Some (node_with [''wmco/version'' \<mapsto> ''8.1.0''])))"
proof -
  let ?k = "''wmco/version''" and ?v = "''9.0.0''"
  have up: "UpToDate ?k ?v (inst (Some (node_with [?k \<mapsto> ?v])))"
    by (simp add: UpToDate_def lookup2_def inst_def node_with_def)
  have nil: "Node (inst None) = None"
    by (simp add: inst_def)
  have absent: "Node (inst (Some (node_with Map.empty))) = Some (node_with Map.empty)
      \<and> Annotations (node_with Map.empty) ?k = None"
    by (simp add: inst_def node_with_def)
  have old: "Node (inst (Some (node_with [?k \<mapsto> ''8.1.0'']))) = Some (node_with [?k \<mapsto> ''8.1.0''])
      \<and> Annotations (node_with [?k \<mapsto> ''8.1.0'']) ?k = Some ''8.1.0'' \<and> ''8.1.0'' \<noteq> ?v"
    by (simp add: inst_def node_with_def)
  from up have 1: "\<not> UpgradeRequired ?k ?v (inst (Some (node_with [?k \<mapsto> ?v])))"
    using C2_UpgradeRequired [of ?k ?v "inst (Some (node_with [?k \<mapsto> ?v]))"] by blast
  from nil have 2: "\<not> UpgradeRequired ?k ?v (inst None)"
    using C2_UpgradeRequired [of ?k ?v "inst None"] by blast
  from absent have 3: "\<not> UpgradeRequired ?k ?v (inst (Some (node_with Map.empty)))"
    using C2_UpgradeRequired [of ?k ?v "inst (Some (node_with Map.empty))"] by blast
  from old have 4: "UpgradeRequired ?k ?v (inst (Some (node_with [?k \<mapsto> ''8.1.0''])))"
    using C2_UpgradeRequired [of ?k ?v "inst (Some (node_with [?k \<mapsto> ''8.1.0'']))"] by blast
  from 1 2 3 4 show ?thesis by blast
qed

text \<open>
  C8. \<open>UpToDate\<close> and \<open>UpgradeRequired\<close> are never both true, and every record is in
  exactly one of three cases: \<open>UpToDate\<close>, \<open>UpgradeRequired\<close>, or first-time
  configuration (no node, or no version annotation on the node).
\<close>

theorem C8_exclusive_exhaustive:
  "\<not> (UpToDate va ver i \<and> UpgradeRequired va ver i) \<and>
   (let a = UpToDate va ver i; b = UpgradeRequired va ver i;
        c = (Node i = None \<or> \<not> annotationPresent va i)
    in (a \<or> b \<or> c) \<and> \<not> (a \<and> b) \<and> \<not> (a \<and> c) \<and> \<not> (b \<and> c))"
  by (auto simp: UpgradeRequired_def UpToDate_def annotationPresent_def lookup2_def Let_def
           split: option.splits)

theorem C8_exclusive_exhaustive_witness:
  "UpgradeRequired ''wmco/version'' ''9.0.0'' (inst (Some (node_with [''wmco/version'' \<mapsto> ''8.1.0'']))) \<and>
   \<not> UpToDate ''wmco/version'' ''9.0.0'' (inst (Some (node_with [''wmco/version'' \<mapsto> ''8.1.0''])))"
  using C8_exclusive_exhaustive [of "''wmco/version''" "''9.0.0''"
     "inst (Some (node_with [''wmco/version'' \<mapsto> ''8.1.0'']))"]
  by (simp add: annotationPresent_def inst_def node_with_def Let_def UpToDate_def lookup2_def)

section \<open>Theorems: annotation patches\<close>

lemma strings_Replace_slash:
  "strings_Replace s ''/'' ''~1'' = concat (map (\<lambda>c. if c = CHR ''/'' then ''~1'' else [c]) s)"
  by (induction s) auto

lemma no_slash_escaped: "CHR ''/'' \<notin> set (strings_Replace s ''/'' ''~1'')"
  by (simp add: strings_Replace_slash)

lemma keySegment_formatPathValue:
  "keySegment (formatPathValue key) = strings_Replace key ''/'' ''~1''"
  by (simp add: keySegment_def formatPathValue_def)

lemma appendPatches_map:
  "appendPatches op m patches =
     patches @ map (\<lambda>(key, v). NewJSONPatch op (formatPathValue key) v) m"
  by (induction op m patches rule: appendPatches.induct) auto

text \<open>
  C7. The patch path built for a key escapes every \<open>/\<close> of the key: the key's segment
  of the path is the key with each \<open>/\<close> replaced by \<open>~1\<close> and holds no \<open>/\<close>; the key
  \<open>a/b\<close> gives the segment \<open>a~1b\<close>.
\<close>

theorem C7_path_escapes_separator:
  "keySegment (formatPathValue key) =
     concat (map (\<lambda>c. if c = CHR ''/'' then ''~1'' else [c]) key) \<and>
   CHR ''/'' \<notin> set (keySegment (formatPathValue key)) \<and>
   formatPathValue key = ''/metadata/annotations/'' @ keySegment (formatPathValue key) \<and>
   keySegment (formatPathValue ''a/b'') = ''a~1b''"
proof -
  have "keySegment (formatPathValue key) =
      concat (map (\<lambda>c. if c = CHR ''/'' then ''~1'' else [c]) key)"
    by (simp only: keySegment_formatPathValue strings_Replace_slash)
  moreover have "CHR ''/'' \<notin> set (keySegment (formatPathValue key))"
    by (simp only: keySegment_formatPathValue no_slash_escaped not_False_eq_True)
  moreover have "formatPathValue key = ''/metadata/annotations/'' @ keySegment (formatPathValue key)"
    by (simp add: keySegment_def formatPathValue_def)
  moreover have "keySegment (formatPathValue ''a/b'') = ''a~1b''"
    by (simp add: keySegment_formatPathValue)
  ultimately show ?thesis by blast
qed

text \<open>
  C10. The escaping of keys is not injective: \<open>/\<close> becomes \<open>~1\<close> while \<open>~\<close> itself is
  left as it is, so the distinct keys \<open>a/b\<close> and \<open>a~1b\<close> both give the path
  \<open>/metadata/annotations/a~1b\<close>.
\<close>

theorem C10_path_not_injective:
  "''a/b'' \<noteq> ''a~1b'' \<and>
   formatPathValue ''a/b'' = ''/metadata/annotations/a~1b'' \<and>
   formatPathValue ''a~1b'' = ''/metadata/annotations/a~1b'' \<and>
   \<not> inj formatPathValue"
proof -
  have 1: "formatPathValue ''a/b'' = ''/metadata/annotations/a~1b''"
    by (simp add: formatPathValue_def)
  have 2: "formatPathValue ''a~1b'' = ''/metadata/annotations/a~1b''"
    by (simp add: formatPathValue_def)
  have 3: "''a/b'' \<noteq> ''a~1b''" by simp
  have "\<not> inj formatPathValue"
  proof
    assume "inj formatPathValue"
    moreover have "formatPathValue ''a/b'' = formatPathValue ''a~1b''"
      by (simp only: 1 2)
    ultimately have "''a/b'' = ''a~1b''" by (rule injD)
    with 3 show False by blast
  qed
  with 1 2 3 show ?thesis by blast
qed

lemma makeAnnotationMap_apply:
  "makeAnnotationMap ks m k = (if k \<in> set ks then Some [] else m k)"
  by (induction ks arbitrary: m) auto

lemma dom_makeAnnotationMap: "dom (makeAnnotationMap ks m) = set ks \<union> dom m"
  by (auto simp: dom_def makeAnnotationMap_apply)

lemma makeAnnotationMap_lookup:
  "k \<in> set ks \<Longrightarrow> makeAnnotationMap ks m k = Some []"
  by (simp add: makeAnnotationMap_apply)

lemma rangeEntries_const:
  "\<forall>k \<in> set visit. m k = Some v \<Longrightarrow> rangeEntries m visit = map (\<lambda>k. (k, v)) visit"
  by (induction visit) auto

lemma rangeEntries_empty: "rangeEntries Map.empty visit = []"
  by (induction visit) auto

lemma json_bytes_plain: "list_all htmlSafe s \<Longrightarrow> json_bytes s = s"
  by (induction s) (auto simp: htmlSafe_def)

lemma json_string_plain: "list_all htmlSafe s \<Longrightarrow> json_string s = quoted s"
  by (simp add: json_string_def json_bytes_plain)

lemma formatPathValue_concat:
  "formatPathValue key =
     ''/metadata/annotations/'' @ concat (map (\<lambda>c. if c = CHR ''/'' then ''~1'' else [c]) key)"
  by (simp add: formatPathValue_def strings_Replace_slash)

lemma escaped_plain:
  "list_all htmlSafe key \<Longrightarrow>
   list_all htmlSafe (concat (map (\<lambda>c. if c = CHR ''/'' then ''~1'' else [c]) key))"
  by (induction key) (auto simp: htmlSafe_def)

lemma formatPathValue_plain: "list_all htmlSafe key \<Longrightarrow> list_all htmlSafe (formatPathValue key)"
proof -
  assume "list_all htmlSafe key"
  then have "list_all htmlSafe (concat (map (\<lambda>c. if c = CHR ''/'' then ''~1'' else [c]) key))"
    by (rule escaped_plain)
  moreover have "list_all htmlSafe ''/metadata/annotations/''"
    by (simp add: htmlSafe_def)
  ultimately show ?thesis
    by (simp only: formatPathValue_concat list_all_append simp_thms)
qed

lemma json_object_plain:
  assumes "list_all htmlSafe op" and "list_all htmlSafe key" and "list_all htmlSafe v"
  shows "json_object (NewJSONPatch op (formatPathValue key) v) = patchText op key v"
proof -
  have "json_string (formatPathValue key) = quoted (formatPathValue key)"
    using assms(2) by (intro json_string_plain formatPathValue_plain)
  then show ?thesis
    using assms(1,3)
    by (simp add: json_object_def NewJSONPatch_def json_string_plain formatPathValue_concat)
qed

lemma json_elems_Cons:
  "json_elems (p # ps) = json_object p @ concat (map (\<lambda>q. '','' @ json_object q) ps)"
  by (induction ps arbitrary: p) auto

lemma generateAnnotationPatch_nonempty:
  "annotations \<noteq> [] \<Longrightarrow>
   generateAnnotationPatch op annotations =
     Inr (''['' @ json_elems (map (\<lambda>(key, v). NewJSONPatch op (formatPathValue key) v)
            annotations) @ '']'')"
  by (simp add: generateAnnotationPatch_def json_Marshal_def appendPatches_map)

lemma generateAnnotationPatch_plain:
  assumes op: "list_all htmlSafe op" and k: "list_all htmlSafe key" and v: "list_all htmlSafe v"
    and rest: "list_all (\<lambda>(k, w). list_all htmlSafe k \<and> list_all htmlSafe w) rest"
  shows "generateAnnotationPatch op ((key, v) # rest) =
     Inr (''['' @ patchText op key v @
          concat (map (\<lambda>(k, w). '','' @ patchText op k w) rest) @ '']'')"
proof -
  let ?f = "\<lambda>(key, v). NewJSONPatch op (formatPathValue key) v"
  have first: "json_object (?f (key, v)) = patchText op key v"
    using json_object_plain [OF op k v] by simp
  have others: "map (\<lambda>q. '','' @ json_object q) (map ?f rest) =
                map (\<lambda>(k, w). '','' @ patchText op k w) rest"
    unfolding map_map
  proof (rule map_cong [OF refl])
    fix e assume e: "e \<in> set rest"
    obtain k' w' where kw: "e = (k', w')" by (cases e)
    from e rest kw have "list_all htmlSafe k'" and "list_all htmlSafe w'"
      by (auto simp: list_all_iff)
    then have "json_object (NewJSONPatch op (formatPathValue k') w') = patchText op k' w'"
      by (rule json_object_plain [OF op])
    then show "((\<lambda>q. '','' @ json_object q) \<circ> ?f) e =
               (case e of (k, w) \<Rightarrow> '','' @ patchText op k w)"
      by (simp add: kw)
  qed
  have "generateAnnotationPatch op ((key, v) # rest) =
      Inr (''['' @ json_elems (?f (key, v) # map ?f rest) @ '']'')"
    using generateAnnotationPatch_nonempty [of "(key, v) # rest" op] by simp
  also have "json_elems (?f (key, v) # map ?f rest) =
      json_object (?f (key, v)) @ concat (map (\<lambda>q. '','' @ json_object q) (map ?f rest))"
    by (rule json_elems_Cons)
  finally show ?thesis
    by (simp only: first others append_assoc)
qed

lemma GenerateRemovePatch_entries:
  assumes "rangeOrder (makeAnnotationMap keys Map.empty) visit"
  shows "set visit = set keys"
    and "GenerateRemovePatch visit keys =
         generateAnnotationPatch ''remove'' (map (\<lambda>k. (k, '''')) visit)"
proof -
  from assms show s: "set visit = set keys"
    by (simp add: rangeOrder_def dom_makeAnnotationMap)
  then have "\<forall>k \<in> set visit. makeAnnotationMap keys Map.empty k = Some ''''"
    by (simp add: makeAnnotationMap_lookup)
  then have "rangeEntries (makeAnnotationMap keys Map.empty) visit = map (\<lambda>k. (k, '''')) visit"
    by (rule rangeEntries_const)
  then show "GenerateRemovePatch visit keys =
         generateAnnotationPatch ''remove'' (map (\<lambda>k. (k, '''')) visit)"
    by (simp add: GenerateRemovePatch_def)
qed

lemma GenerateRemovePatch_any_order: 
    assumes h: "keys \<noteq> [] \<and> rangeOrder (makeAnnotationMap keys Map.empty) visit"
    shows "visit \<noteq> [] \<and> set visit = set keys \<and>
      GenerateRemovePatch visit keys =
        Inr (''['' @ json_elems (map (\<lambda>key. NewJSONPatch ''remove'' (formatPathValue key) '''')
               visit) @ '']'')"
proof -
    from h have ro: "rangeOrder (makeAnnotationMap keys Map.empty) visit" by (rule conjunct2)
    note e = GenerateRemovePatch_entries [OF ro]
    from h e(1) have d1: "visit \<noteq> []" by auto
    then have ne: "map (\<lambda>k. (k, '''')) visit \<noteq> []" by simp
    have "GenerateRemovePatch visit keys =
        Inr (''['' @ json_elems (map (\<lambda>(key, v). NewJSONPatch ''remove'' (formatPathValue key) v)
               (map (\<lambda>k. (k, '''')) visit)) @ '']'')"
      by (simp only: e(2) generateAnnotationPatch_nonempty [OF ne])
    then have d3: "GenerateRemovePatch visit keys =
        Inr (''['' @ json_elems (map (\<lambda>key. NewJSONPatch ''remove'' (formatPathValue key) '''')
               visit) @ '']'')"
      by (simp add: comp_def)
    show ?thesis
      by (rule conjI [OF d1 conjI [OF e(1) d3]])
qed

lemma GenerateAddPatch_plain: 
  assumes h1: "list_all htmlSafe key" and h2: "list_all htmlSafe v"
      and h3: "list_all (\<lambda>(k, w). list_all htmlSafe k \<and> list_all htmlSafe w) rest"
  shows "GenerateAddPatch ((key, v) # rest) =
        Inr (''['' @ patchText ''add'' key v @
             concat (map (\<lambda>(k, w). '','' @ patchText ''add'' k w) rest) @ '']'')"
proof -
  have plainAdd: "list_all htmlSafe ''add''" by (simp_all add: htmlSafe_def)
  show ?thesis
      unfolding GenerateAddPatch_def
      by (rule generateAnnotationPatch_plain [OF plainAdd h1 h2 h3])
qed

lemma GenerateRemovePatch_plain:
  assumes ro: "rangeOrder (makeAnnotationMap keys Map.empty) (key # later)"
      and h1: "list_all htmlSafe key" and h2: "list_all (list_all htmlSafe) later"
  shows "GenerateRemovePatch (key # later) keys =
        Inr (''['' @ patchText ''remove'' key '''' @
             concat (map (\<lambda>k. '','' @ patchText ''remove'' k '''') later) @ '']'')"
proof -
    have plainRemove: "list_all htmlSafe ''remove''" by (simp_all add: htmlSafe_def)
    have h3: "list_all (\<lambda>(k, w). list_all htmlSafe k \<and> list_all htmlSafe w)
                (map (\<lambda>k. (k, '''')) later)"
      using h2 by (simp add: list_all_iff)
    have "GenerateRemovePatch (key # later) keys =
        generateAnnotationPatch ''remove'' ((key, '''') # map (\<lambda>k. (k, '''')) later)"
      using GenerateRemovePatch_entries(2) [OF ro] by simp
    also have "\<dots> = Inr (''['' @ patchText ''remove'' key '''' @
          concat (map (\<lambda>(k, w). '','' @ patchText ''remove'' k w) (map (\<lambda>k. (k, '''')) later))
          @ '']'')"
      by (rule generateAnnotationPatch_plain [OF plainRemove h1 _ h3]) simp
    finally show ?thesis
      by (simp add: comp_def)
qed

text \<open>
  C6. \<open>GenerateAddPatch\<close> on an empty map and \<open>GenerateRemovePatch\<close> on an empty key
  list fail with an input error and return no document. On every non-empty input they
  succeed. The add patch is the JSON array with one \<open>add\<close> operation per entry, in the
  order of the range; the remove patch is the JSON array with one \<open>remove\<close> operation
  per distinct key, in whichever order the range visits the keys. Where operation, keys
  and values need no escape the bytes of the document are given in full.
\<close>

theorem C6_patch_input:
  "GenerateAddPatch [] = Inl (InputError ''annotations to format cannot be empty or nil'') \<and>
   GenerateRemovePatch visit [] =
     Inl (InputError ''annotations to format cannot be empty or nil'') \<and>
   (annotations \<noteq> [] \<longrightarrow>
      GenerateAddPatch annotations =
        Inr (''['' @ json_elems (map (\<lambda>(key, v). NewJSONPatch ''add'' (formatPathValue key) v)
               annotations) @ '']'')) \<and>
   (keys \<noteq> [] \<and> rangeOrder (makeAnnotationMap keys Map.empty) visit \<longrightarrow>
      visit \<noteq> [] \<and> set visit = set keys \<and>
      GenerateRemovePatch visit keys =
        Inr (''['' @ json_elems (map (\<lambda>key. NewJSONPatch ''remove'' (formatPathValue key) '''')
               visit) @ '']'')) \<and>
   (list_all htmlSafe key \<and> list_all htmlSafe v \<and>
    list_all (\<lambda>(k, w). list_all htmlSafe k \<and> list_all htmlSafe w) rest \<longrightarrow>
      GenerateAddPatch ((key, v) # rest) =
        Inr (''['' @ patchText ''add'' key v @
             concat (map (\<lambda>(k, w). '','' @ patchText ''add'' k w) rest) @ '']'')) \<and>
   (rangeOrder (makeAnnotationMap keys Map.empty) (key # later) \<and>
    list_all htmlSafe key \<and> list_all (list_all htmlSafe) later \<longrightarrow>
      GenerateRemovePatch (key # later) keys =
        Inr (''['' @ patchText ''remove'' key '''' @
             concat (map (\<lambda>k. '','' @ patchText ''remove'' k '''') later) @ '']''))"
proof -
  have a: "GenerateAddPatch [] = Inl (InputError ''annotations to format cannot be empty or nil'')"
    by (simp add: GenerateAddPatch_def generateAnnotationPatch_def)
  have b: "GenerateRemovePatch visit [] =
      Inl (InputError ''annotations to format cannot be empty or nil'')"
    by (simp add: GenerateRemovePatch_def generateAnnotationPatch_def rangeEntries_empty)
  have c: "annotations \<noteq> [] \<longrightarrow> GenerateAddPatch annotations =
        Inr (''['' @ json_elems (map (\<lambda>(key, v). NewJSONPatch ''add'' (formatPathValue key) v)
               annotations) @ '']'')"
    by (simp add: GenerateAddPatch_def generateAnnotationPatch_nonempty)
  have d: "keys \<noteq> [] \<and> rangeOrder (makeAnnotationMap keys Map.empty) visit \<longrightarrow>
      visit \<noteq> [] \<and> set visit = set keys \<and>
      GenerateRemovePatch visit keys =
        Inr (''['' @ json_elems (map (\<lambda>key. NewJSONPatch ''remove'' (formatPathValue key) [])
               visit) @ '']'')"
    by (rule impI) (rule GenerateRemovePatch_any_order)
  have e: "list_all htmlSafe key \<and> list_all htmlSafe v \<and>
    list_all (\<lambda>(k, w). list_all htmlSafe k \<and> list_all htmlSafe w) rest \<longrightarrow>
      GenerateAddPatch ((key, v) # rest) =
        Inr (''['' @ patchText ''add'' key v @
             concat (map (\<lambda>(k, w). '','' @ patchText ''add'' k w) rest) @ '']'')"
  proof (rule impI)
    assume h: "list_all htmlSafe key \<and> list_all htmlSafe v \<and>
      list_all (\<lambda>(k, w). list_all htmlSafe k \<and> list_all htmlSafe w) rest"
    from h have h1: "list_all htmlSafe key" by (rule conjunct1)
    from h have h2: "list_all htmlSafe v" by (rule conjunct1 [OF conjunct2])
    from h have h3: "list_all (\<lambda>(k, w). list_all htmlSafe k \<and> list_all htmlSafe w) rest"
      by (rule conjunct2 [OF conjunct2])
    show "GenerateAddPatch ((key, v) # rest) =
        Inr (''['' @ patchText ''add'' key v @
             concat (map (\<lambda>(k, w). '','' @ patchText ''add'' k w) rest) @ '']'')"
      by (rule GenerateAddPatch_plain [OF h1 h2 h3])
  qed
  have f: "rangeOrder (makeAnnotationMap keys Map.empty) (key # later) \<and>
    list_all htmlSafe key \<and> list_all (list_all htmlSafe) later \<longrightarrow>
      GenerateRemovePatch (key # later) keys =
        Inr (''['' @ patchText ''remove'' key [] @
             concat (map (\<lambda>k. '','' @ patchText ''remove'' k []) later) @ '']'')"
  proof (rule impI)
    assume h: "rangeOrder (makeAnnotationMap keys Map.empty) (key # later) \<and>
      list_all htmlSafe key \<and> list_all (list_all htmlSafe) later"
    from h have h1: "rangeOrder (makeAnnotationMap keys Map.empty) (key # later)"
      by (rule conjunct1)
    from h have h2: "list_all htmlSafe key" by (rule conjunct1 [OF conjunct2])
    from h have h3: "list_all (list_all htmlSafe) later" by (rule conjunct2 [OF conjunct2])
    show "GenerateRemovePatch (key # later) keys =
        Inr (''['' @ patchText ''remove'' key [] @
             concat (map (\<lambda>k. '','' @ patchText ''remove'' k []) later) @ '']'')"
      by (rule GenerateRemovePatch_plain [OF h1 h2 h3])
  qed
  show ?thesis
    by (rule conjI [OF a conjI [OF b conjI [OF c conjI [OF d conjI [OF e f]]]]])
qed

theorem C6_patch_input_witness:
  "GenerateAddPatch [(''a/b'', ''v'')] =
     Inr (''[{'' @ [CHR 0x22] @ ''op'' @ [CHR 0x22] @ '':'' @ [CHR 0x22] @ ''add'' @
          [CHR 0x22] @ '','' @ [CHR 0x22] @ ''path'' @ [CHR 0x22] @ '':'' @ [CHR 0x22] @
          ''/metadata/annotations/a~1b'' @ [CHR 0x22] @ '','' @ [CHR 0x22] @ ''value'' @
          [CHR 0x22] @ '':'' @ [CHR 0x22] @ ''v'' @ [CHR 0x22] @ ''}]'') \<and>
   GenerateRemovePatch [''k1'', ''k2''] [''k1'', ''k2''] =
     Inr (''[{'' @ [CHR 0x22] @ ''op'' @ [CHR 0x22] @ '':'' @ [CHR 0x22] @ ''remove'' @
          [CHR 0x22] @ '','' @ [CHR 0x22] @ ''path'' @ [CHR 0x22] @ '':'' @ [CHR 0x22] @
          ''/metadata/annotations/k1'' @ [CHR 0x22] @ '','' @ [CHR 0x22] @ ''value'' @
          [CHR 0x22] @ '':'' @ [CHR 0x22] @ [CHR 0x22] @ ''},{'' @ [CHR 0x22] @ ''op'' @
          [CHR 0x22] @ '':'' @ [CHR 0x22] @ ''remove'' @ [CHR 0x22] @ '','' @ [CHR 0x22] @
          ''path'' @ [CHR 0x22] @ '':'' @ [CHR 0x22] @ ''/metadata/annotations/k2'' @
          [CHR 0x22] @ '','' @ [CHR 0x22] @ ''value'' @ [CHR 0x22] @ '':'' @ [CHR 0x22] @
          [CHR 0x22] @ ''}]'') \<and>
   GenerateRemovePatch [''k2'', ''k1''] [''k1'', ''k2''] =
     Inr (''[{'' @ [CHR 0x22] @ ''op'' @ [CHR 0x22] @ '':'' @ [CHR 0x22] @ ''remove'' @
          [CHR 0x22] @ '','' @ [CHR 0x22] @ ''path'' @ [CHR 0x22] @ '':'' @ [CHR 0x22] @
          ''/metadata/annotations/k2'' @ [CHR 0x22] @ '','' @ [CHR 0x22] @ ''value'' @
          [CHR 0x22] @ '':'' @ [CHR 0x22] @ [CHR 0x22] @ ''},{'' @ [CHR 0x22] @ ''op'' @
          [CHR 0x22] @ '':'' @ [CHR 0x22] @ ''remove'' @ [CHR 0x22] @ '','' @ [CHR 0x22] @
          ''path'' @ [CHR 0x22] @ '':'' @ [CHR 0x22] @ ''/metadata/annotations/k1'' @
          [CHR 0x22] @ '','' @ [CHR 0x22] @ ''value'' @ [CHR 0x22] @ '':'' @ [CHR 0x22] @
          [CHR 0x22] @ ''}]'') \<and>
   GenerateAddPatch [(''k'',
       [CHR 0x22, CHR ''<'', CHR 0x08, CHR 0xE2, CHR 0x80, CHR 0xA8, CHR 0xC3, CHR 0xA9, CHR 0xFF])] =
     Inr (''[{'' @ [CHR 0x22] @ ''op'' @ [CHR 0x22] @ '':'' @ [CHR 0x22] @ ''add'' @
          [CHR 0x22] @ '','' @ [CHR 0x22] @ ''path'' @ [CHR 0x22] @ '':'' @ [CHR 0x22] @
          ''/metadata/annotations/k'' @ [CHR 0x22] @ '','' @ [CHR 0x22] @ ''value'' @
          [CHR 0x22] @ '':'' @ [CHR 0x22] @
          [CHR 0x5C, CHR 0x22] @ [CHR 0x5C] @ ''u003c'' @ [CHR 0x5C] @ ''b'' @
          [CHR 0x5C] @ ''u2028'' @ [CHR 0xC3, CHR 0xA9] @ [CHR 0x5C] @ ''ufffd'' @
          [CHR 0x22] @ ''}]'')"
proof -
  have plain: "list_all htmlSafe ''a/b'' \<and> list_all htmlSafe ''v'' \<and>
      list_all (\<lambda>(k, w). list_all htmlSafe k \<and> list_all htmlSafe w) []"
    by (simp add: htmlSafe_def)
  have order12: "rangeOrder (makeAnnotationMap [''k1'', ''k2''] Map.empty) (''k1'' # [''k2'']) \<and>
      list_all htmlSafe ''k1'' \<and> list_all (list_all htmlSafe) [''k2'']"
    by (auto simp: rangeOrder_def htmlSafe_def)
  have order21: "rangeOrder (makeAnnotationMap [''k1'', ''k2''] Map.empty) (''k2'' # [''k1'']) \<and>
      list_all htmlSafe ''k2'' \<and> list_all (list_all htmlSafe) [''k1'']"
    by (auto simp: rangeOrder_def htmlSafe_def)
  note add = C6_patch_input [where key = "''a/b''" and v = "''v''" and rest = "[]"
      and annotations = "[]" and keys = "[]" and visit = "[]" and later = "[]"]
  note rem12 = C6_patch_input [where key = "''k1''" and later = "[''k2'']"
      and keys = "[''k1'', ''k2'']" and v = "[]" and rest = "[]" and annotations = "[]"
      and visit = "[]"]
  note rem21 = C6_patch_input [where key = "''k2''" and later = "[''k1'']"
      and keys = "[''k1'', ''k2'']" and v = "[]" and rest = "[]" and annotations = "[]"
      and visit = "[]"]
  have 1: "GenerateAddPatch [(''a/b'', ''v'')] =
      Inr (''['' @ patchText ''add'' ''a/b'' ''v'' @
           concat (map (\<lambda>(k, w). '','' @ patchText ''add'' k w) []) @ '']'')"
    by (rule mp [OF conjunct1 [OF conjunct2 [OF conjunct2 [OF conjunct2 [OF conjunct2 [OF add]]]]]
                 plain])
  have 2: "GenerateRemovePatch (''k1'' # [''k2'']) [''k1'', ''k2''] =
      Inr (''['' @ patchText ''remove'' ''k1'' [] @
           concat (map (\<lambda>k. '','' @ patchText ''remove'' k []) [''k2'']) @ '']'')"
    by (rule mp [OF conjunct2 [OF conjunct2 [OF conjunct2 [OF conjunct2 [OF conjunct2 [OF rem12]]]]]
                 order12])
  have 3: "GenerateRemovePatch (''k2'' # [''k1'']) [''k1'', ''k2''] =
      Inr (''['' @ patchText ''remove'' ''k2'' [] @
           concat (map (\<lambda>k. '','' @ patchText ''remove'' k []) [''k1'']) @ '']'')"
    by (rule mp [OF conjunct2 [OF conjunct2 [OF conjunct2 [OF conjunct2 [OF conjunct2 [OF rem21]]]]]
                 order21])
  from 1 have d1: "GenerateAddPatch [(''a/b'', ''v'')] =
     Inr (''[{'' @ [CHR 0x22] @ ''op'' @ [CHR 0x22] @ '':'' @ [CHR 0x22] @ ''add'' @
          [CHR 0x22] @ '','' @ [CHR 0x22] @ ''path'' @ [CHR 0x22] @ '':'' @ [CHR 0x22] @
          ''/metadata/annotations/a~1b'' @ [CHR 0x22] @ '','' @ [CHR 0x22] @ ''value'' @
          [CHR 0x22] @ '':'' @ [CHR 0x22] @ ''v'' @ [CHR 0x22] @ ''}]'')"
    by (simp add: quoted_def)
  from 2 have d2: "GenerateRemovePatch [''k1'', ''k2''] [''k1'', ''k2''] =
     Inr (''[{'' @ [CHR 0x22] @ ''op'' @ [CHR 0x22] @ '':'' @ [CHR 0x22] @ ''remove'' @
          [CHR 0x22] @ '','' @ [CHR 0x22] @ ''path'' @ [CHR 0x22] @ '':'' @ [CHR 0x22] @
          ''/metadata/annotations/k1'' @ [CHR 0x22] @ '','' @ [CHR 0x22] @ ''value'' @
          [CHR 0x22] @ '':'' @ [CHR 0x22] @ [CHR 0x22] @ ''},{'' @ [CHR 0x22] @ ''op'' @
          [CHR 0x22] @ '':'' @ [CHR 0x22] @ ''remove'' @ [CHR 0x22] @ '','' @ [CHR 0x22] @
          ''path'' @ [CHR 0x22] @ '':'' @ [CHR 0x22] @ ''/metadata/annotations/k2'' @
          [CHR 0x22] @ '','' @ [CHR 0x22] @ ''value'' @ [CHR 0x22] @ '':'' @ [CHR 0x22] @
          [CHR 0x22] @ ''}]'')"
    by (simp add: quoted_def)
  from 3 have d3: "GenerateRemovePatch [''k2'', ''k1''] [''k1'', ''k2''] =
     Inr (''[{'' @ [CHR 0x22] @ ''op'' @ [CHR 0x22] @ '':'' @ [CHR 0x22] @ ''remove'' @
          [CHR 0x22] @ '','' @ [CHR 0x22] @ ''path'' @ [CHR 0x22] @ '':'' @ [CHR 0x22] @
          ''/metadata/annotations/k2'' @ [CHR 0x22] @ '','' @ [CHR 0x22] @ ''value'' @
          [CHR 0x22] @ '':'' @ [CHR 0x22] @ [CHR 0x22] @ ''},{'' @ [CHR 0x22] @ ''op'' @
          [CHR 0x22] @ '':'' @ [CHR 0x22] @ ''remove'' @ [CHR 0x22] @ '','' @ [CHR 0x22] @
          ''path'' @ [CHR 0x22] @ '':'' @ [CHR 0x22] @ ''/metadata/annotations/k1'' @
          [CHR 0x22] @ '','' @ [CHR 0x22] @ ''value'' @ [CHR 0x22] @ '':'' @ [CHR 0x22] @
          [CHR 0x22] @ ''}]'')"
    by (simp add: quoted_def)
  let ?v = "[CHR 0x22, CHR ''<'', CHR 0x08, CHR 0xE2, CHR 0x80, CHR 0xA8, CHR 0xC3, CHR 0xA9, CHR 0xFF]"
  note esc = C6_patch_input [where annotations = "[(''k'', ?v)]" and key = "[]" and v = "[]"
      and rest = "[]" and keys = "[]" and visit = "[]" and later = "[]"]
  have ne: "[(''k'', ?v)] \<noteq> []" by simp
  have "GenerateAddPatch [(''k'', ?v)] =
        Inr (''['' @ json_elems (map (\<lambda>(key, v). NewJSONPatch ''add'' (formatPathValue key) v)
               [(''k'', ?v)]) @ '']'')"
    by (rule mp [OF conjunct1 [OF conjunct2 [OF conjunct2 [OF esc]]] ne])
  then have d4: "GenerateAddPatch [(''k'', ?v)] =
     Inr (''[{'' @ [CHR 0x22] @ ''op'' @ [CHR 0x22] @ '':'' @ [CHR 0x22] @ ''add'' @
          [CHR 0x22] @ '','' @ [CHR 0x22] @ ''path'' @ [CHR 0x22] @ '':'' @ [CHR 0x22] @
          ''/metadata/annotations/k'' @ [CHR 0x22] @ '','' @ [CHR 0x22] @ ''value'' @
          [CHR 0x22] @ '':'' @ [CHR 0x22] @
          [CHR 0x5C, CHR 0x22] @ [CHR 0x5C] @ ''u003c'' @ [CHR 0x5C] @ ''b'' @
          [CHR 0x5C] @ ''u2028'' @ [CHR 0xC3, CHR 0xA9] @ [CHR 0x5C] @ ''ufffd'' @
          [CHR 0x22] @ ''}]'')"
    by (simp add: NewJSONPatch_def formatPathValue_def json_object_def json_string_def quoted_def
          htmlSafe_def escapeByte_def runeSize_def inRange_def hexDigit_def)
  show ?thesis
    by (rule conjI [OF d1 conjI [OF d2 conjI [OF d3 d4]]])
qed

section \<open>Theorems: connection establishment\<close>

lemma dialCondition_transient:
  assumes "transient (net (dials s))"
  shows "\<exists>s'. dialCondition net s = ((False, None), s') \<and> dials s' = Suc (dials s)"
  using assms
  by (cases "net (dials s)") (simp_all add: transient_def dialCondition_def Let_def)

lemma dialCondition_rejected:
  assumes "net (dials s) = Inl err" and "strings_Contains err ''unable to authenticate''"
  shows "\<exists>s'. dialCondition net s = ((False, Some (AuthErr err)), s') \<and> dials s' = Suc (dials s)"
  using assms by (simp add: dialCondition_def Let_def newAuthErr_def)

lemma dialCondition_connected:
  assumes "net (dials s) = Inr cl"
  shows "\<exists>s'. dialCondition net s = ((True, None), s') \<and> dials s' = Suc (dials s)
            \<and> client s' = Some cl"
  using assms by (simp add: dialCondition_def)

lemma poll_after_transient:
  assumes "\<forall>j<k. transient (net (dials s + j))" and "k \<le> n"
  shows "\<exists>s'. PollImmediate n (dialCondition net) s = PollImmediate (n - k) (dialCondition net) s'
            \<and> dials s' = dials s + k"
  using assms
proof (induction k arbitrary: s n)
  case 0
  show ?case by (rule exI [of _ s]) simp
next
  case (Suc k)
  from Suc.prems(2) obtain n' where n: "n = Suc n'" and kn: "k \<le> n'"
    by (cases n) simp_all
  from Suc.prems(1) have "transient (net (dials s + 0))" by blast
  then have "transient (net (dials s))" by simp
  then obtain s1 where s1: "dialCondition net s = ((False, None), s1)" and d1: "dials s1 = Suc (dials s)"
    using dialCondition_transient by blast
  have "\<forall>j<k. transient (net (dials s1 + j))"
  proof (intro allI impI)
    fix j assume "j < k"
    then have "Suc j < Suc k" by simp
    with Suc.prems(1) have "transient (net (dials s + Suc j))" by blast
    then show "transient (net (dials s1 + j))" by (simp add: d1)
  qed
  from Suc.IH [OF this kn] obtain s' where
    s': "PollImmediate n' (dialCondition net) s1 = PollImmediate (n' - k) (dialCondition net) s'"
    and d': "dials s' = dials s1 + k" by blast
  have "PollImmediate n (dialCondition net) s = PollImmediate n' (dialCondition net) s1"
    by (simp add: n s1)
  with s' d' d1 n show ?case by auto
qed

lemma init_poll:
  assumes "username c \<noteq> ''''" and "ipAddress c \<noteq> ''''" and "signer c \<noteq> None"
  shows "init net ticks c =
     (case PollImmediate (Suc ticks) (dialCondition net) \<lparr>client = None, logged = [], dials = 0\<rparr> of
        (Some err, s) \<Rightarrow>
          (Some (Wrapped (''unable to connect to Windows VM '' @ ipAddress c) err),
           c\<lparr>log := log c @ logged s\<rparr>, dials s)
      | (None, s) \<Rightarrow> (None, c\<lparr>sshClient := client s, log := log c @ logged s\<rparr>, dials s))"
  using assms by (auto simp: init_def simp del: PollImmediate.simps)

lemma init_rejected:
  assumes ok: "username c \<noteq> ''''" "ipAddress c \<noteq> ''''" "signer c \<noteq> None"
    and k: "k \<le> ticks" and before: "\<forall>j<k. transient (net j)"
    and at: "net k = Inl err" and auth: "strings_Contains err ''unable to authenticate''"
  shows "fst (init net ticks c) =
           Some (Wrapped (''unable to connect to Windows VM '' @ ipAddress c) (AuthErr err)) \<and>
         sshClient (fst (snd (init net ticks c))) = sshClient c \<and>
         snd (snd (init net ticks c)) = Suc k"
proof -
  let ?s0 = "\<lparr>client = None, logged = [], dials = 0\<rparr>"
  have "\<forall>j<k. transient (net (dials ?s0 + j))" using before by simp
  moreover have "k \<le> Suc ticks" using k by simp
  ultimately obtain s' where
    p: "PollImmediate (Suc ticks) (dialCondition net) ?s0 =
        PollImmediate (Suc ticks - k) (dialCondition net) s'"
    and d: "dials s' = dials ?s0 + k"
    using poll_after_transient by blast
  have dk: "dials s' = k" using d by simp
  have left: "Suc ticks - k = Suc (ticks - k)" using k by simp
  from at dk have "net (dials s') = Inl err" by simp
  then obtain s'' where c: "dialCondition net s' = ((False, Some (AuthErr err)), s'')"
    and d'': "dials s'' = Suc (dials s')"
    using dialCondition_rejected [OF _ auth] by blast
  have "PollImmediate (Suc (ticks - k)) (dialCondition net) s' = (Some (AuthErr err), s'')"
    by (simp add: c)
  with p left have "PollImmediate (Suc ticks) (dialCondition net) ?s0 = (Some (AuthErr err), s'')"
    by (simp only:)
  then show ?thesis
    by (simp add: init_poll [OF ok] d'' dk)
qed

lemma init_timeout:
  assumes ok: "username c \<noteq> ''''" "ipAddress c \<noteq> ''''" "signer c \<noteq> None"
    and all: "\<forall>j\<le>ticks. transient (net j)"
  shows "fst (init net ticks c) =
           Some (Wrapped (''unable to connect to Windows VM '' @ ipAddress c) ErrWaitTimeout) \<and>
         sshClient (fst (snd (init net ticks c))) = sshClient c \<and>
         snd (snd (init net ticks c)) = Suc ticks"
proof -
  let ?s0 = "\<lparr>client = None, logged = [], dials = 0\<rparr>"
  have "\<forall>j<Suc ticks. transient (net (dials ?s0 + j))" using all by simp
  then obtain s' where
    p: "PollImmediate (Suc ticks) (dialCondition net) ?s0 =
        PollImmediate (Suc ticks - Suc ticks) (dialCondition net) s'"
    and d: "dials s' = dials ?s0 + Suc ticks"
    using poll_after_transient [of "Suc ticks" net ?s0 "Suc ticks"] by blast
  have "PollImmediate (Suc ticks - Suc ticks) (dialCondition net) s' = (Some ErrWaitTimeout, s')"
    by simp
  with p have "PollImmediate (Suc ticks) (dialCondition net) ?s0 = (Some ErrWaitTimeout, s')"
    by (simp only:)
  then show ?thesis
    using d by (simp add: init_poll [OF ok])
qed

lemma init_connected:
  assumes ok: "username c \<noteq> ''''" "ipAddress c \<noteq> ''''" "signer c \<noteq> None"
    and k: "k \<le> ticks" and before: "\<forall>j<k. transient (net j)"
    and at: "net k = Inr cl"
  shows "fst (init net ticks c) = None \<and>
         sshClient (fst (snd (init net ticks c))) = Some cl \<and>
         snd (snd (init net ticks c)) = Suc k"
proof -
  let ?s0 = "\<lparr>client = None, logged = [], dials = 0\<rparr>"
  have "\<forall>j<k. transient (net (dials ?s0 + j))" using before by simp
  moreover have "k \<le> Suc ticks" using k by simp
  ultimately obtain s' where
    p: "PollImmediate (Suc ticks) (dialCondition net) ?s0 =
        PollImmediate (Suc ticks - k) (dialCondition net) s'"
    and d: "dials s' = dials ?s0 + k"
    using poll_after_transient by blast
  have dk: "dials s' = k" using d by simp
  have left: "Suc ticks - k = Suc (ticks - k)" using k by simp
  from at dk have "net (dials s') = Inr cl" by simp
  then obtain s'' where c: "dialCondition net s' = ((True, None), s'')"
    and d'': "dials s'' = Suc (dials s')" and cl: "client s'' = Some cl"
    using dialCondition_connected by blast
  have "PollImmediate (Suc (ticks - k)) (dialCondition net) s' = (None, s'')"
    by (simp add: c)
  with p left have "PollImmediate (Suc ticks) (dialCondition net) ?s0 = (None, s'')"
    by (simp only:)
  then show ?thesis
    by (simp add: init_poll [OF ok] d'' dk cl)
qed

text \<open>
  C3. With complete connection data, \<open>init\<close> stops at the first attempt that is
  rejected for its credentials: it returns an error that wraps \<open>AuthErr\<close> and dials no
  more. Every other failed attempt is followed by another one; when all attempts that fit
  before the timeout fail in this way, the error wraps \<open>ErrWaitTimeout\<close>. When earlier
  attempts fail in this way and a later attempt before the timeout succeeds, \<open>init\<close>
  returns nil and the connectivity holds the client of that attempt.
\<close>

theorem C3_init_retry:
  assumes "username c \<noteq> ''''" and "ipAddress c \<noteq> ''''" and "signer c \<noteq> None"
  shows
  "(k \<le> ticks \<and> (\<forall>j<k. transient (net j)) \<and> net k = Inl err \<and>
      strings_Contains err ''unable to authenticate'' \<longrightarrow>
        fst (init net ticks c) =
          Some (Wrapped (''unable to connect to Windows VM '' @ ipAddress c) (AuthErr err)) \<and>
        (\<forall>e. fst (init net ticks c) = Some e \<longrightarrow> isAuthErr e) \<and>
        sshClient (fst (snd (init net ticks c))) = sshClient c \<and>
        snd (snd (init net ticks c)) = Suc k) \<and>
   ((\<forall>j\<le>ticks. transient (net j)) \<longrightarrow>
        fst (init net ticks c) =
          Some (Wrapped (''unable to connect to Windows VM '' @ ipAddress c) ErrWaitTimeout) \<and>
        (\<forall>e. fst (init net ticks c) = Some e \<longrightarrow> \<not> isAuthErr e) \<and>
        sshClient (fst (snd (init net ticks c))) = sshClient c \<and>
        snd (snd (init net ticks c)) = Suc ticks) \<and>
   (k \<le> ticks \<and> (\<forall>j<k. transient (net j)) \<and> net k = Inr cl \<longrightarrow>
        fst (init net ticks c) = None \<and>
        sshClient (fst (snd (init net ticks c))) = Some cl \<and>
        snd (snd (init net ticks c)) = Suc k)"
proof (intro conjI impI)
  assume h: "k \<le> ticks \<and> (\<forall>j<k. transient (net j)) \<and> net k = Inl err \<and>
      strings_Contains err ''unable to authenticate''"
  note r = init_rejected [OF assms, of k ticks net err]
  from h r show "fst (init net ticks c) =
          Some (Wrapped (''unable to connect to Windows VM '' @ ipAddress c) (AuthErr err))"
    by blast
  then show "\<forall>e. fst (init net ticks c) = Some e \<longrightarrow> isAuthErr e" by simp
  from h r show "sshClient (fst (snd (init net ticks c))) = sshClient c" by blast
  from h r show "snd (snd (init net ticks c)) = Suc k" by blast
next
  assume h: "\<forall>j\<le>ticks. transient (net j)"
  note r = init_timeout [OF assms h]
  from r show "fst (init net ticks c) =
          Some (Wrapped (''unable to connect to Windows VM '' @ ipAddress c) ErrWaitTimeout)"
    by blast
  then show "\<forall>e. fst (init net ticks c) = Some e \<longrightarrow> \<not> isAuthErr e" by simp
  from r show "sshClient (fst (snd (init net ticks c))) = sshClient c" by blast
  from r show "snd (snd (init net ticks c)) = Suc ticks" by blast
next
  assume h: "k \<le> ticks \<and> (\<forall>j<k. transient (net j)) \<and> net k = Inr cl"
  note r = init_connected [OF assms, of k ticks net cl]
  from h r show "fst (init net ticks c) = None" by blast
  from h r show "sshClient (fst (snd (init net ticks c))) = Some cl" by blast
  from h r show "snd (snd (init net ticks c)) = Suc k" by blast
qed

theorem C3_init_retry_witness:
  "fst (init netAuth 5 conn0) =
     Some (Wrapped ''unable to connect to Windows VM 10.0.0.7''
       (AuthErr ''ssh: handshake failed: ssh: unable to authenticate, attempted methods [none publickey], no supported methods remain'')) \<and>
   snd (snd (init netAuth 5 conn0)) = Suc 0 \<and>
   fst (init netDown 2 conn0) =
     Some (Wrapped ''unable to connect to Windows VM 10.0.0.7'' ErrWaitTimeout) \<and>
   snd (snd (init netDown 2 conn0)) = Suc 2 \<and>
   fst (init netRetry 5 conn0) = None \<and>
   sshClient (fst (snd (init netRetry 5 conn0))) = Some (SshClient ''10.0.0.7:22'') \<and>
   snd (snd (init netRetry 5 conn0)) = Suc 2"
proof -
  let ?msg = "''ssh: handshake failed: ssh: unable to authenticate, attempted methods [none publickey], no supported methods remain''"
  have ok: "username conn0 \<noteq> ''''" "ipAddress conn0 \<noteq> ''''" "signer conn0 \<noteq> None"
    by (simp_all add: conn0_def)
  have ip: "ipAddress conn0 = ''10.0.0.7''"
    by (simp add: conn0_def)
  have a: "0 \<le> (5::nat) \<and> (\<forall>j<0. transient (netAuth j)) \<and> netAuth 0 = Inl ?msg \<and>
      strings_Contains ?msg ''unable to authenticate''"
    by (simp add: netAuth_def)
  have b: "\<forall>j\<le>2. transient (netDown j)"
    by (simp add: netDown_def transient_def)
  have c: "2 \<le> (5::nat) \<and> (\<forall>j<2. transient (netRetry j)) \<and> netRetry 2 = Inr (SshClient ''10.0.0.7:22'')"
    by (simp add: netRetry_def transient_def)
  from a C3_init_retry [OF ok, of 0 5 netAuth ?msg]
  have 1: "fst (init netAuth 5 conn0) =
      Some (Wrapped (''unable to connect to Windows VM '' @ ipAddress conn0) (AuthErr ?msg))
      \<and> snd (snd (init netAuth 5 conn0)) = Suc 0"
    by blast
  from b C3_init_retry [OF ok, of _ 2 netDown]
  have 2: "fst (init netDown 2 conn0) =
      Some (Wrapped (''unable to connect to Windows VM '' @ ipAddress conn0) ErrWaitTimeout)
      \<and> snd (snd (init netDown 2 conn0)) = Suc 2"
    by blast
  from c C3_init_retry [OF ok, of 2 5 netRetry _ "SshClient ''10.0.0.7:22''"]
  have 3: "fst (init netRetry 5 conn0) = None \<and>
      sshClient (fst (snd (init netRetry 5 conn0))) = Some (SshClient ''10.0.0.7:22'') \<and>
      snd (snd (init netRetry 5 conn0)) = Suc 2"
    by blast
  from 1 2 3 show ?thesis
    by (simp add: ip)
qed

section \<open>Theorems: file transfer\<close>

lemma transfer_nil_faults:
  assumes "fst (transfer flt c reader filename remoteDir fs) = None"
  shows "sshClient c \<noteq> None \<and> newClientErr flt = None \<and> mkdirAllErr flt = None \<and>
         createErr flt = None \<and> copyErr flt = None"
  using assms
  by (auto simp: transfer_def deferFtpClose_def Let_def split: if_splits option.splits prod.splits)

lemma transfer_no_faults:
  assumes "sshClient c \<noteq> None" and "newClientErr flt = None" and "mkdirAllErr flt = None"
    and "createErr flt = None" and "copyErr flt = None"
  shows "transfer flt c reader filename remoteDir fs =
     deferFtpClose flt
       (case fileCloseErr flt of
          Some e \<Rightarrow>
            (None,
             c\<lparr>log := log c @ [''error closing remote file '' @ (remoteDir @ [CHR 0x5C] @ filename)
                                 @ '': '' @ e]\<rparr>,
             fs\<lparr>dirs := insert remoteDir (dirs fs),
                files := (files fs)((remoteDir @ [CHR 0x5C] @ filename) \<mapsto>
                        \<lparr>content = reader, closed = False\<rparr>)\<rparr>)
        | None \<Rightarrow>
            (None, c,
             fs\<lparr>dirs := insert remoteDir (dirs fs),
                files := (files fs)((remoteDir @ [CHR 0x5C] @ filename) \<mapsto>
                        \<lparr>content = reader, closed = True\<rparr>)\<rparr>))"
  using assms
  by (auto simp: transfer_def Let_def split: option.splits)

text \<open>
  C5, as the code has it. \<open>transfer\<close> returns nil only after the remote directory and the
  destination file were made, every byte of the reader was written to the file and a
  close of the file was tried. When that close succeeds, the file is closed on return;
  when it fails, the failure is written to the log and \<open>transfer\<close> returns nil all the
  same, the file left unclosed.
\<close>

theorem C5_transfer_nil:
  assumes "fst (transfer flt c reader filename remoteDir fs) = None"
  shows
  "sshClient c \<noteq> None \<and> copyErr flt = None \<and>
   remoteDir \<in> dirs (snd (snd (transfer flt c reader filename remoteDir fs))) \<and>
   (fileCloseErr flt = None \<longrightarrow>
      files (snd (snd (transfer flt c reader filename remoteDir fs)))
        (remoteDir @ [CHR 0x5C] @ filename) = Some \<lparr>content = reader, closed = True\<rparr>) \<and>
   (\<forall>e. fileCloseErr flt = Some e \<longrightarrow>
      files (snd (snd (transfer flt c reader filename remoteDir fs)))
        (remoteDir @ [CHR 0x5C] @ filename) = Some \<lparr>content = reader, closed = False\<rparr> \<and>
      (''error closing remote file '' @ (remoteDir @ [CHR 0x5C] @ filename) @ '': '' @ e)
        \<in> set (log (fst (snd (transfer flt c reader filename remoteDir fs)))))"
proof -
  note f = transfer_nil_faults [OF assms]
  from f have eq: "transfer flt c reader filename remoteDir fs =
     deferFtpClose flt
       (case fileCloseErr flt of
          Some e \<Rightarrow>
            (None,
             c\<lparr>log := log c @ [''error closing remote file '' @ (remoteDir @ [CHR 0x5C] @ filename)
                                 @ '': '' @ e]\<rparr>,
             fs\<lparr>dirs := insert remoteDir (dirs fs),
                files := (files fs)((remoteDir @ [CHR 0x5C] @ filename) \<mapsto>
                        \<lparr>content = reader, closed = False\<rparr>)\<rparr>)
        | None \<Rightarrow>
            (None, c,
             fs\<lparr>dirs := insert remoteDir (dirs fs),
                files := (files fs)((remoteDir @ [CHR 0x5C] @ filename) \<mapsto>
                        \<lparr>content = reader, closed = True\<rparr>)\<rparr>))"
    by (intro transfer_no_faults) simp_all
  show ?thesis
    unfolding eq using f
    by (cases "fileCloseErr flt"; cases "ftpCloseErr flt") (simp_all add: deferFtpClose_def)
qed

theorem C5_transfer_nil_witness:
  "files (snd (snd (transfer noFaults conn1 ''MZ'' ''kubelet.exe'' k8sDir emptyFs)))
     (k8sDir @ [CHR 0x5C] @ ''kubelet.exe'') = Some \<lparr>content = ''MZ'', closed = True\<rparr> \<and>
   files (snd (snd (transfer closeFails conn1 ''MZ'' ''kubelet.exe'' k8sDir emptyFs)))
     (k8sDir @ [CHR 0x5C] @ ''kubelet.exe'') = Some \<lparr>content = ''MZ'', closed = False\<rparr> \<and>
   (''error closing remote file '' @ (k8sDir @ [CHR 0x5C] @ ''kubelet.exe'') @ '': ''
      @ ''connection lost'')
     \<in> set (log (fst (snd (transfer closeFails conn1 ''MZ'' ''kubelet.exe'' k8sDir emptyFs))))"
proof -
  have nil: "fst (transfer noFaults conn1 ''MZ'' ''kubelet.exe'' k8sDir emptyFs) = None"
    by (simp add: transfer_def deferFtpClose_def noFaults_def conn1_def conn0_def)
  have nil': "fst (transfer closeFails conn1 ''MZ'' ''kubelet.exe'' k8sDir emptyFs) = None"
    by (simp add: transfer_def deferFtpClose_def closeFails_def noFaults_def conn1_def conn0_def)
  have ok: "fileCloseErr noFaults = None"
    by (simp add: noFaults_def)
  have bad: "fileCloseErr closeFails = Some ''connection lost''"
    by (simp add: closeFails_def noFaults_def)
  from ok C5_transfer_nil [OF nil] have 1:
    "files (snd (snd (transfer noFaults conn1 ''MZ'' ''kubelet.exe'' k8sDir emptyFs)))
       (k8sDir @ [CHR 0x5C] @ ''kubelet.exe'') = Some \<lparr>content = ''MZ'', closed = True\<rparr>"
    by blast
  from bad C5_transfer_nil [OF nil'] have 2:
    "files (snd (snd (transfer closeFails conn1 ''MZ'' ''kubelet.exe'' k8sDir emptyFs)))
       (k8sDir @ [CHR 0x5C] @ ''kubelet.exe'') = Some \<lparr>content = ''MZ'', closed = False\<rparr> \<and>
     (''error closing remote file '' @ (k8sDir @ [CHR 0x5C] @ ''kubelet.exe'') @ '': ''
        @ ''connection lost'')
       \<in> set (log (fst (snd (transfer closeFails conn1 ''MZ'' ''kubelet.exe'' k8sDir emptyFs))))"
    by blast
  from 1 2 show ?thesis by (rule conjI)
qed

text \<open>
  C5 as stated fails: when the close of the destination file fails, \<open>transfer\<close> still
  returns nil and the file is left unclosed.
\<close>

theorem C5_counterexample:
  "fst (transfer closeFails conn1 ''MZ'' ''kubelet.exe'' k8sDir emptyFs) = None \<and>
   map_option closed
     (files (snd (snd (transfer closeFails conn1 ''MZ'' ''kubelet.exe'' k8sDir emptyFs)))
        (k8sDir @ [CHR 0x5C] @ ''kubelet.exe'')) = Some False"
  by (simp add: transfer_def deferFtpClose_def closeFails_def noFaults_def conn1_def conn0_def)

section \<open>Theorems: upgrade gate\<close>

lemma inTreeReferenced_iff:
  "inTreeReferenced stats a = (\<exists>v \<in> set stats. backing v = InTree \<and> volumePath v = a)"
  by (simp add: inTreeReferenced_def list_ex_iff)

text \<open>
  The four rows of \<open>TestUpgradeBlocked\<close> expect false; its node has no attached volume,
  and there the model is false for every label set, flag and snapshot.
\<close>

lemma upgradeBlocked_test_rows:
  "\<not> upgradeBlocked marker (testNode labels) upgradingToCSI stats"
  by (simp add: upgradeBlocked_def testNode_def)

text \<open>
  C4. \<open>upgradeBlocked\<close> is false whenever the node carries the marker label, false
  whenever \<open>migratingToNewDriver\<close> is false, and otherwise true if and only if some
  volume attached to the node is referenced by an in-tree volume path of the snapshot.
\<close>

theorem C4_upgradeBlocked:
  "(Labels node marker \<noteq> None \<longrightarrow> \<not> upgradeBlocked marker node migrating stats) \<and>
   (\<not> migrating \<longrightarrow> \<not> upgradeBlocked marker node migrating stats) \<and>
   (Labels node marker = None \<and> migrating \<longrightarrow>
      upgradeBlocked marker node migrating stats =
        (\<exists>a \<in> set (VolumesAttached node). \<exists>v \<in> set stats.
            backing v = InTree \<and> volumePath v = a))"
  by (simp add: upgradeBlocked_def list_ex_iff inTreeReferenced_iff)

theorem C4_upgradeBlocked_witness:
  "\<not> upgradeBlocked ''csi'' \<lparr>Annotations = Map.empty, Labels = [''csi'' \<mapsto> ''true''],
        VolumesAttached = [''vol-1'']\<rparr> True [\<lparr>volumePath = ''vol-1'', backing = InTree\<rparr>] \<and>
   \<not> upgradeBlocked ''csi'' \<lparr>Annotations = Map.empty, Labels = Map.empty,
        VolumesAttached = [''vol-1'']\<rparr> False [\<lparr>volumePath = ''vol-1'', backing = InTree\<rparr>] \<and>
   upgradeBlocked ''csi'' \<lparr>Annotations = Map.empty, Labels = Map.empty,
        VolumesAttached = [''vol-1'']\<rparr> True [\<lparr>volumePath = ''vol-1'', backing = InTree\<rparr>] \<and>
   \<not> upgradeBlocked ''csi'' \<lparr>Annotations = Map.empty, Labels = Map.empty,
        VolumesAttached = [''vol-1'']\<rparr> True [\<lparr>volumePath = ''vol-1'', backing = NewDriver\<rparr>]"
  using
    C4_upgradeBlocked [of "\<lparr>Annotations = Map.empty, Labels = [''csi'' \<mapsto> ''true''],
        VolumesAttached = [''vol-1'']\<rparr>" "''csi''" True "[\<lparr>volumePath = ''vol-1'', backing = InTree\<rparr>]"]
    C4_upgradeBlocked [of "\<lparr>Annotations = Map.empty, Labels = Map.empty,
        VolumesAttached = [''vol-1'']\<rparr>" "''csi''" False "[\<lparr>volumePath = ''vol-1'', backing = InTree\<rparr>]"]
    C4_upgradeBlocked [of "\<lparr>Annotations = Map.empty, Labels = Map.empty,
        VolumesAttached = [''vol-1'']\<rparr>" "''csi''" True "[\<lparr>volumePath = ''vol-1'', backing = InTree\<rparr>]"]
    C4_upgradeBlocked [of "\<lparr>Annotations = Map.empty, Labels = Map.empty,
        VolumesAttached = [''vol-1'']\<rparr>" "''csi''" True "[\<lparr>volumePath = ''vol-1'', backing = NewDriver\<rparr>]"]
  by simp


section \<open>Theorems: certificate bundle convergence\<close>

lemma set_mergeBundles: "set (mergeBundles prior new) = set prior \<union> set new"
  by (auto simp: mergeBundles_def)

lemma convergeHost_installed:
  "hostUpToDate h \<Longrightarrow> bundleFile (snd (convergeHost True expected h)) = expected"
  by (simp add: convergeHost_def)

lemma convergeHost_keeps_or_installs:
  "bundleFile (snd (convergeHost ok expected h)) = bundleFile h \<or>
   bundleFile (snd (convergeHost ok expected h)) = expected"
  by (simp add: convergeHost_def)

lemma mergeBundles_keeps_prior: "take (length prior) (mergeBundles prior new) = prior"
  by (simp add: mergeBundles_def)

text \<open>
  C9. On a rotation the bundle that the engine installs on a host is the union of the
  prior and the new certificate blocks, never a replacement: the merged bundle starts
  with the prior blocks and holds exactly the prior and the new ones; a pass with a
  working transfer leaves the merged bundle on an \<open>UpToDate\<close> host; whatever the
  transfer does, a host that held the prior bundle still holds every prior block
  afterwards. So with \<open>{A}\<close> on the host and \<open>B\<close> new in the authoritative bundle
  \<open>{A, B}\<close>, one pass with a working transfer leaves \<open>{A, B}\<close>, and no pass leaves
  \<open>{B}\<close> alone.
\<close>

theorem C9_bundle_union:
  "set (mergeBundles prior new) = set prior \<union> set new \<and>
   take (length prior) (mergeBundles prior new) = prior \<and>
   (hostUpToDate h \<longrightarrow>
      bundleFile (snd (convergeHost True (mergeBundles prior new) h)) = mergeBundles prior new \<and>
      set (bundleFile (snd (convergeHost True (mergeBundles prior new) h))) =
        set prior \<union> set new) \<and>
   (bundleFile h = prior \<longrightarrow>
      set prior \<subseteq> set (bundleFile (snd (convergeHost ok (mergeBundles prior new) h)))) \<and>
   (A \<noteq> B \<and> hostUpToDate h \<and> bundleFile h = [A] \<and> set new \<subseteq> {A, B} \<and> B \<in> set new \<longrightarrow>
      set (bundleFile (snd (convergeHost True (mergeBundles [A] new) h))) = {A, B} \<and>
      set (bundleFile (snd (convergeHost ok (mergeBundles [A] new) h))) \<noteq> {B})"
proof -
  have u: "set (mergeBundles prior new) = set prior \<union> set new"
    by (rule set_mergeBundles)
  have p: "take (length prior) (mergeBundles prior new) = prior"
    by (rule mergeBundles_keeps_prior)
  have i: "hostUpToDate h \<longrightarrow>
      bundleFile (snd (convergeHost True (mergeBundles prior new) h)) = mergeBundles prior new \<and>
      set (bundleFile (snd (convergeHost True (mergeBundles prior new) h))) =
        set prior \<union> set new"
    by (simp add: convergeHost_installed set_mergeBundles)
  have k: "bundleFile h = prior \<longrightarrow>
      set prior \<subseteq> set (bundleFile (snd (convergeHost ok (mergeBundles prior new) h)))"
    using convergeHost_keeps_or_installs [of ok "mergeBundles prior new" h]
    by (auto simp: set_mergeBundles)
  have s: "A \<noteq> B \<and> hostUpToDate h \<and> bundleFile h = [A] \<and> set new \<subseteq> {A, B} \<and> B \<in> set new \<longrightarrow>
      set (bundleFile (snd (convergeHost True (mergeBundles [A] new) h))) = {A, B} \<and>
      set (bundleFile (snd (convergeHost ok (mergeBundles [A] new) h))) \<noteq> {B}"
  proof (intro impI)
    assume h: "A \<noteq> B \<and> hostUpToDate h \<and> bundleFile h = [A] \<and> set new \<subseteq> {A, B} \<and> B \<in> set new"
    then have m: "set (mergeBundles [A] new) = {A, B}"
      by (auto simp: set_mergeBundles)
    from h m have t: "set (bundleFile (snd (convergeHost True (mergeBundles [A] new) h))) = {A, B}"
      by (simp add: convergeHost_installed)
    have "A \<in> set (bundleFile (snd (convergeHost ok (mergeBundles [A] new) h)))"
      using convergeHost_keeps_or_installs [of ok "mergeBundles [A] new" h] m h by auto
    with h have "set (bundleFile (snd (convergeHost ok (mergeBundles [A] new) h))) \<noteq> {B}"
      by auto
    with t show "set (bundleFile (snd (convergeHost True (mergeBundles [A] new) h))) = {A, B} \<and>
      set (bundleFile (snd (convergeHost ok (mergeBundles [A] new) h))) \<noteq> {B}"
      by (rule conjI)
  qed
  show ?thesis
    by (rule conjI [OF u conjI [OF p conjI [OF i conjI [OF k s]]]])
qed

theorem C9_bundle_union_witness:
  "bundleFile (snd (convergeHost True (mergeBundles [''cert A''] [''cert B''])
      \<lparr>hostUpToDate = True, bundleFile = [''cert A'']\<rparr>)) = [''cert A'', ''cert B''] \<and>
   bundleFile (snd (convergeHost True (mergeBundles [''cert A0'', ''cert A1''] [''cert A1'', ''cert B''])
      \<lparr>hostUpToDate = True, bundleFile = [''cert A0'', ''cert A1'']\<rparr>)) =
     [''cert A0'', ''cert A1'', ''cert B''] \<and>
   set (bundleFile (snd (convergeHost True (mergeBundles [''cert A''] [''cert A'', ''cert B''])
      \<lparr>hostUpToDate = True, bundleFile = [''cert A'']\<rparr>))) = {''cert A'', ''cert B''} \<and>
   set (bundleFile (snd (convergeHost False (mergeBundles [''cert A''] [''cert A'', ''cert B''])
      \<lparr>hostUpToDate = True, bundleFile = [''cert A'']\<rparr>))) \<noteq> {''cert B''} \<and>
   {''cert A0'', ''cert A1''} \<subseteq>
     set (bundleFile (snd (convergeHost False (mergeBundles [''cert A0'', ''cert A1''] [''cert B''])
      \<lparr>hostUpToDate = True, bundleFile = [''cert A0'', ''cert A1'']\<rparr>)))"
proof -
  let ?hA = "\<lparr>hostUpToDate = True, bundleFile = [''cert A'']\<rparr>"
  let ?hAA = "\<lparr>hostUpToDate = True, bundleFile = [''cert A0'', ''cert A1'']\<rparr>"
  have up: "hostUpToDate ?hA" "hostUpToDate ?hAA" by simp_all
  note one = C9_bundle_union [where prior = "[''cert A'']" and new = "[''cert B'']" and h = ?hA
      and ok = True and A = "''cert A''" and B = "''cert B''"]
  note two = C9_bundle_union [where prior = "[''cert A0'', ''cert A1'']"
      and new = "[''cert A1'', ''cert B'']" and h = ?hAA and ok = True
      and A = "''cert A''" and B = "''cert B''"]
  note scenT = C9_bundle_union [where prior = "[''cert A'']" and new = "[''cert A'', ''cert B'']"
      and h = ?hA and ok = False and A = "''cert A''" and B = "''cert B''"]
  note keep = C9_bundle_union [where prior = "[''cert A0'', ''cert A1'']" and new = "[''cert B'']"
      and h = ?hAA and ok = False and A = "''cert A''" and B = "''cert B''"]
  have w1: "bundleFile (snd (convergeHost True (mergeBundles [''cert A''] [''cert B'']) ?hA)) =
      [''cert A'', ''cert B'']"
    using one up(1) by (simp add: mergeBundles_def)
  have w2: "bundleFile (snd (convergeHost True
        (mergeBundles [''cert A0'', ''cert A1''] [''cert A1'', ''cert B'']) ?hAA)) =
      [''cert A0'', ''cert A1'', ''cert B'']"
    using two up(2) by (simp add: mergeBundles_def)
  have hyp: "''cert A'' \<noteq> ''cert B'' \<and> hostUpToDate ?hA \<and> bundleFile ?hA = [''cert A''] \<and>
      set [''cert A'', ''cert B''] \<subseteq> {''cert A'', ''cert B''} \<and> ''cert B'' \<in> set [''cert A'', ''cert B'']"
    by simp
  have w34: "set (bundleFile (snd (convergeHost True
        (mergeBundles [''cert A''] [''cert A'', ''cert B'']) ?hA))) = {''cert A'', ''cert B''} \<and>
      set (bundleFile (snd (convergeHost False
        (mergeBundles [''cert A''] [''cert A'', ''cert B'']) ?hA))) \<noteq> {''cert B''}"
    by (rule mp [OF conjunct2 [OF conjunct2 [OF conjunct2 [OF conjunct2 [OF scenT]]]] hyp])
  have "bundleFile ?hAA = [''cert A0'', ''cert A1'']" by simp
  with keep have "set [''cert A0'', ''cert A1''] \<subseteq>
     set (bundleFile (snd (convergeHost False
        (mergeBundles [''cert A0'', ''cert A1''] [''cert B'']) ?hAA)))"
    by blast
  then have w5: "{''cert A0'', ''cert A1''} \<subseteq>
     set (bundleFile (snd (convergeHost False
        (mergeBundles [''cert A0'', ''cert A1''] [''cert B'']) ?hAA)))"
    by simp
  from w1 w2 w34 w5 show ?thesis by blast
qed

end
